theory Spec2Isabelle
  imports Main
begin

section \<open>Python strings\<close>

text \<open>
  Python \<^verbatim>\<open>str\<close> values are modelled as \<^typ>\<open>string\<close>. \<open>split_str sep s\<close> is
  \<^verbatim>\<open>s.split(sep)\<close> for a one-character separator: the segments between the occurrences
  of the separator, always at least one segment. \<open>rstrip_chr c s\<close> is \<^verbatim>\<open>s.rstrip(c)\<close> for a
  one-character argument: every trailing \<open>c\<close> is removed. \<open>endswith s suf\<close> is
  \<^verbatim>\<open>s.endswith(suf)\<close>.
\<close>

fun split_str :: "char \<Rightarrow> string \<Rightarrow> string list" where
  "split_str sep [] = [[]]"
| "split_str sep (c # cs) =
     (let segs = split_str sep cs
      in if c = sep then [] # segs else (c # hd segs) # tl segs)"

definition rstrip_chr :: "char \<Rightarrow> string \<Rightarrow> string" where
  "rstrip_chr c s = rev (dropWhile (\<lambda>x. x = c) (rev s))"

definition endswith :: "string \<Rightarrow> string \<Rightarrow> bool" where
  "endswith s suf = (length suf \<le> length s \<and> drop (length s - length suf) s = suf)"

section \<open>Syntax trees\<close>

text \<open>
  The part of Python's \<^verbatim>\<open>ast\<close> node classes that the analysis inspects. An expression is
  a \<^verbatim>\<open>Name\<close> (field \<^verbatim>\<open>id\<close>), an \<^verbatim>\<open>Attribute\<close> (fields \<^verbatim>\<open>value\<close>, \<^verbatim>\<open>attr\<close>), a
  \<^verbatim>\<open>Subscript\<close> (fields \<^verbatim>\<open>value\<close>, \<^verbatim>\<open>slice\<close>; the slice is the index expression itself,
  as \<^verbatim>\<open>ast.parse\<close> builds it since Python 3.9), or one of the shapes the code never looks
  into. A statement is a \<^verbatim>\<open>ClassDef\<close> (fields \<^verbatim>\<open>name\<close>, \<^verbatim>\<open>bases\<close>, \<^verbatim>\<open>body\<close>), a
  \<^verbatim>\<open>FunctionDef\<close> (field \<^verbatim>\<open>name\<close>), an \<^verbatim>\<open>AnnAssign\<close> (fields \<^verbatim>\<open>target\<close>,
  \<^verbatim>\<open>annotation\<close>), or anything else.
\<close>

datatype expr =
    Name string
  | Attribute expr string
  | Subscript expr expr
  | Constant string
  | Tuple "expr list"
  | OtherExpr

datatype stmt =
    ClassDef string "expr list" "stmt list"
  | FunctionDef string
  | AnnAssign expr expr
  | OtherStmt

section \<open>Type resolver\<close>

text \<open>
  \<^verbatim>\<open>resolve_type\<close>, the function nested in \<^verbatim>\<open>extract_classes_with_nested_models\<close>. The test
  \<^verbatim>\<open>hasattr(annotation, "slice")\<close> holds of every \<^verbatim>\<open>Subscript\<close> node. A recognised container
  whose slice is none of the three handled shapes falls out of the inner
  \<^verbatim>\<open>if\<close>/\<^verbatim>\<open>elif\<close> chain to \<^verbatim>\<open>return "ComplexType"\<close>.
\<close>

fun resolve_type :: "expr \<Rightarrow> string" where
  "resolve_type (Name ident) = ident"
| "resolve_type (Subscript v sl) =
     (case v of
        Name container_type \<Rightarrow>
          if container_type \<in> {''List'', ''Optional'', ''Dict''} then
            (case sl of
               Name ident \<Rightarrow> container_type @ ''['' @ ident @ '']''
             | Subscript v' sl' \<Rightarrow> container_type @ ''['' @ resolve_type sl @ '']''
             | Attribute v' a \<Rightarrow> container_type @ ''['' @ a @ '']''
             | _ \<Rightarrow> ''ComplexType'')
          else ''ComplexType''
      | _ \<Rightarrow> ''ComplexType'')"
| "resolve_type (Attribute v a) = a"
| "resolve_type _ = ''Unknown''"

section \<open>Type normalisation\<close>

text \<open>
  \<^verbatim>\<open>normalize_type\<close>: \<^verbatim>\<open>attr_type.split("[")[1].rstrip("]")\<close> under the guard
  \<^verbatim>\<open>"[" in attr_type\<close>. Index 1 exists whenever the guard holds (lemma
  \<open>split_str_length\<close> below), so the indexing cannot raise.
\<close>

definition normalize_type :: "string \<Rightarrow> string" where
  "normalize_type attr_type =
     (if CHR ''['' \<in> set attr_type
      then rstrip_chr CHR '']'' (split_str CHR ''['' attr_type ! 1)
      else attr_type)"

text \<open>
  The normalisation as the specification words it: the text strictly between the first
  \<open>[\<close> and the last \<open>]\<close> when the descriptor contains a \<open>[\<close>, the descriptor itself
  otherwise.
\<close>

definition between_brackets :: "string \<Rightarrow> string" where
  "between_brackets s =
     rev (tl (dropWhile (\<lambda>c. c \<noteq> CHR '']'') (rev (tl (dropWhile (\<lambda>c. c \<noteq> CHR ''['') s)))))"

definition normalize_type_spec :: "string \<Rightarrow> string" where
  "normalize_type_spec attr_type =
     (if CHR ''['' \<in> set attr_type then between_brackets attr_type else attr_type)"

section \<open>Dictionaries and errors\<close>

text \<open>
  A Python \<^verbatim>\<open>dict\<close> keeps its keys in insertion order, so it is modelled as an
  association list with one entry per key. \<open>dict_set d k v\<close> is \<^verbatim>\<open>d[k] = v\<close>: an
  existing key keeps its position and gets the new value, a new key goes to the end.
  \<open>dict_update d other\<close> is \<^verbatim>\<open>d.update(other)\<close>. Lookup is \<^const>\<open>map_of\<close>.
\<close>

type_synonym ('k, 'v) dict = "('k \<times> 'v) list"

fun dict_set :: "('k, 'v) dict \<Rightarrow> 'k \<Rightarrow> 'v \<Rightarrow> ('k, 'v) dict" where
  "dict_set [] k v = [(k, v)]"
| "dict_set ((k', v') # d) k v =
     (if k' = k then (k', v) # d else (k', v') # dict_set d k v)"

definition dict_update :: "('k, 'v) dict \<Rightarrow> ('k, 'v) dict \<Rightarrow> ('k, 'v) dict" where
  "dict_update d other = fold (\<lambda>(k, v) acc. dict_set acc k v) other d"

text \<open>
  The exceptions that can leave the modelled functions: what \<^verbatim>\<open>open\<close>, \<^verbatim>\<open>read\<close> and
  \<^verbatim>\<open>ast.parse\<close> raise on a file, and the \<^verbatim>\<open>KeyError\<close> of a failed dictionary lookup.
  \<open>error_str\<close> is \<^verbatim>\<open>str(e)\<close>.
\<close>

datatype error = SyntaxError string | OSError string | KeyError string

fun error_str :: "error \<Rightarrow> string" where
  "error_str (SyntaxError msg) = msg"
| "error_str (OSError msg) = msg"
| "error_str (KeyError k) = [CHR 0x27] @ k @ [CHR 0x27]"

section \<open>File extractor\<close>

type_synonym field_record = "string \<times> string \<times> bool"
type_synonym nested_reference = "string \<times> string \<times> string"

text \<open>The four values \<^verbatim>\<open>extract_classes_with_nested_models\<close> returns.\<close>

record extraction =
  classes :: "(string, field_record list) dict"
  base_models :: "string set"
  nested_relationships :: "nested_reference list"
  file_to_class_map :: "(string, string) dict"

text \<open>
  Line 46, the dictionary comprehension over \<^verbatim>\<open>tree.body\<close>: each top-level
  \<^verbatim>\<open>ClassDef\<close> is stored under its name, a later one replacing an earlier one of the
  same name. Of a stored node only \<^verbatim>\<open>bases\<close> and \<^verbatim>\<open>body\<close> are read afterwards.
\<close>

definition class_definitions_of :: "stmt list \<Rightarrow> (string, expr list \<times> stmt list) dict" where
  "class_definitions_of body =
     fold (\<lambda>node d. case node of
                       ClassDef name bases cbody \<Rightarrow> dict_set d name (bases, cbody)
                     | _ \<Rightarrow> d) body []"

text \<open>Lines 56 to 60, the loop over \<^verbatim>\<open>node.bases\<close>.\<close>

fun base_is_model :: "expr \<Rightarrow> bool" where
  "base_is_model (Name ident) = (ident = ''BaseModel'')"
| "base_is_model (Attribute v a) = (a = ''BaseModel'')"
| "base_is_model _ = False"

definition check_inheritance :: "expr list \<Rightarrow> bool" where
  "check_inheritance bases =
     fold (\<lambda>base is_base_model. if base_is_model base then True else is_base_model) bases False"

text \<open>
  Lines 69 to 73: \<^verbatim>\<open>inner_model\<close> is \<^verbatim>\<open>None\<close>, or the last segment of the split at
  \<open>[\<close> without its trailing \<open>]\<close>, or the type itself when it is a key of
  \<^verbatim>\<open>class_definitions\<close>. The split is never empty, so index \<open>-1\<close> exists.
\<close>

definition inner_model_of :: "(string, expr list \<times> stmt list) dict \<Rightarrow> string \<Rightarrow> string option" where
  "inner_model_of class_definitions attr_type =
     (if CHR ''['' \<in> set attr_type
      then Some (rstrip_chr CHR '']'' (last (split_str CHR ''['' attr_type)))
      else if attr_type \<in> set (map fst class_definitions) then Some attr_type
      else None)"

text \<open>
  Lines 64 to 79, one iteration of the loop over \<^verbatim>\<open>node.body\<close>. The test
  \<^verbatim>\<open>if inner_model:\<close> is false for \<^verbatim>\<open>None\<close> and for the empty string.
\<close>

fun extract_child ::
  "(string, expr list \<times> stmt list) dict \<Rightarrow> string \<Rightarrow> stmt \<Rightarrow>
   nested_reference list \<times> field_record list \<Rightarrow> nested_reference list \<times> field_record list" where
  "extract_child class_definitions class_name (AnnAssign (Name attr_name) annotation) (rels, attributes) =
     (let attr_type = resolve_type annotation in
      case inner_model_of class_definitions attr_type of
        None \<Rightarrow> (rels, attributes @ [(attr_name, attr_type, False)])
      | Some inner_model \<Rightarrow>
          if inner_model \<noteq> []
          then (rels @ [(class_name, attr_name, inner_model)],
                attributes @ [(attr_name, attr_type, True)])
          else (rels, attributes @ [(attr_name, attr_type, False)]))"
| "extract_child class_definitions class_name child acc = acc"

text \<open>Lines 48 to 83, one iteration of the loop over \<^verbatim>\<open>class_definitions.items()\<close>.\<close>

definition extract_class ::
  "string \<Rightarrow> (string, expr list \<times> stmt list) dict \<Rightarrow> string \<times> expr list \<times> stmt list \<Rightarrow>
   extraction \<Rightarrow> extraction" where
  "extract_class file_path class_definitions item acc =
     (case item of (class_name, bases, cbody) \<Rightarrow>
        (case fold (extract_child class_definitions class_name) cbody
                (nested_relationships acc, []) of
           (rels, attributes) \<Rightarrow>
             \<lparr> classes = dict_set (classes acc) class_name attributes,
               base_models = (if check_inheritance bases
                              then insert class_name (base_models acc) else base_models acc),
               nested_relationships = rels,
               file_to_class_map = dict_set (file_to_class_map acc) class_name file_path \<rparr>))"

definition extract_tree :: "string \<Rightarrow> stmt list \<Rightarrow> extraction" where
  "extract_tree file_path body =
     (let class_definitions = class_definitions_of body
      in fold (extract_class file_path class_definitions) class_definitions
           \<lparr> classes = [], base_models = {}, nested_relationships = [],
             file_to_class_map = [] \<rparr>)"

text \<open>
  \<^verbatim>\<open>extract_classes_with_nested_models\<close>. Opening, reading and parsing the file
  (lines 42 and 43) are the parameter \<open>parse\<close>; what they raise is not caught here.
\<close>

definition extract_classes_with_nested_models ::
  "(string \<Rightarrow> error + stmt list) \<Rightarrow> string \<Rightarrow> error + extraction" where
  "extract_classes_with_nested_models parse file_path =
     (case parse file_path of
        Inl e \<Rightarrow> Inl e
      | Inr body \<Rightarrow> Inr (extract_tree file_path body))"

section \<open>Folder aggregator\<close>

text \<open>The four values \<^verbatim>\<open>analyze_models_folder\<close> returns.\<close>

record aggregate =
  all_classes :: "(string, field_record list) dict"
  all_base_models :: "string set"
  all_relationships :: "nested_reference list"
  class_to_file_map :: "(string, string) dict"

text \<open>
  \<^verbatim>\<open>os.walk\<close> yields triples \<^verbatim>\<open>(root, dirs, files)\<close>; \<open>py_files\<close> lists, in the order of
  the two nested loops, the paths \<^verbatim>\<open>os.path.join(root, file)\<close> of the files that end in
  \<^verbatim>\<open>.py\<close>. \<open>os_path_join\<close> is the POSIX \<^verbatim>\<open>os.path.join\<close> of two components.
\<close>

definition os_path_join :: "string \<Rightarrow> string \<Rightarrow> string" where
  "os_path_join a b =
     (if b \<noteq> [] \<and> hd b = CHR ''/'' then b
      else if a = [] \<or> last a = CHR ''/'' then a @ b
      else a @ ''/'' @ b)"

definition py_files :: "(string \<times> string list \<times> string list) list \<Rightarrow> string list" where
  "py_files walk =
     concat (map (\<lambda>(root, dirs, files).
                    map (os_path_join root) (filter (\<lambda>file. endswith file ''.py'') files))
                 walk)"

fun analyze_files ::
  "(string \<Rightarrow> error + stmt list) \<Rightarrow> string list \<Rightarrow> aggregate \<Rightarrow> error + aggregate" where
  "analyze_files parse [] acc = Inr acc"
| "analyze_files parse (file_path # rest) acc =
     (case extract_classes_with_nested_models parse file_path of
        Inl e \<Rightarrow> Inl e
      | Inr ex \<Rightarrow>
          analyze_files parse rest
            \<lparr> all_classes = dict_update (all_classes acc) (classes ex),
              all_base_models = all_base_models acc \<union> base_models ex,
              all_relationships = all_relationships acc @ nested_relationships ex,
              class_to_file_map = dict_update (class_to_file_map acc) (file_to_class_map ex) \<rparr>)"

definition analyze_models_folder ::
  "(string \<Rightarrow> error + stmt list) \<Rightarrow> (string \<times> string list \<times> string list) list \<Rightarrow>
   error + aggregate" where
  "analyze_models_folder parse walk =
     analyze_files parse (py_files walk)
       \<lparr> all_classes = [], all_base_models = {}, all_relationships = [],
         class_to_file_map = [] \<rparr>"

section \<open>Inconsistency detector\<close>

text \<open>
  \<^verbatim>\<open>attribute_types\<close> is a \<^verbatim>\<open>defaultdict(set)\<close> and \<^verbatim>\<open>attribute_files\<close> a
  \<^verbatim>\<open>defaultdict(list)\<close>: a missing key reads as the empty set or list and is created by
  the access. \<open>dd_add d k x\<close> is \<^verbatim>\<open>d[k].add(x)\<close>, \<open>dd_append d k x\<close> is
  \<^verbatim>\<open>d[k].append(x)\<close>, \<open>dd_list d k\<close> reads \<^verbatim>\<open>d[k]\<close>.
\<close>

definition dd_add :: "(string, string set) dict \<Rightarrow> string \<Rightarrow> string \<Rightarrow> (string, string set) dict" where
  "dd_add d k x = dict_set d k (insert x (case map_of d k of None \<Rightarrow> {} | Some s \<Rightarrow> s))"

definition dd_list :: "(string, string list) dict \<Rightarrow> string \<Rightarrow> string list" where
  "dd_list d k = (case map_of d k of None \<Rightarrow> [] | Some l \<Rightarrow> l)"

definition dd_append :: "(string, string list) dict \<Rightarrow> string \<Rightarrow> string \<Rightarrow> (string, string list) dict" where
  "dd_append d k x = dict_set d k (dd_list d k @ [x])"

type_synonym attribute_index = "(string, string set) dict \<times> (string, string list) dict"

text \<open>
  Lines 132 to 135, the loop over one class's attributes. The lookup
  \<^verbatim>\<open>class_to_file_map[class_name]\<close> raises \<^verbatim>\<open>KeyError\<close> for a missing class.
\<close>

fun record_attributes ::
  "(string, string) dict \<Rightarrow> string \<Rightarrow> field_record list \<Rightarrow> attribute_index \<Rightarrow>
   error + attribute_index" where
  "record_attributes cfm class_name [] idx = Inr idx"
| "record_attributes cfm class_name ((attr_name, attr_type, is_nested) # rest)
     (attribute_types, attribute_files) =
     (let normalized_type = normalize_type attr_type;
          attribute_types' = dd_add attribute_types attr_name normalized_type
      in case map_of cfm class_name of
           None \<Rightarrow> Inl (KeyError class_name)
         | Some file \<Rightarrow>
             record_attributes cfm class_name rest
               (attribute_types', dd_append attribute_files attr_name file))"

text \<open>Line 131, the loop over \<^verbatim>\<open>classes.items()\<close>.\<close>

fun record_classes ::
  "(string, string) dict \<Rightarrow> (string, field_record list) dict \<Rightarrow> attribute_index \<Rightarrow>
   error + attribute_index" where
  "record_classes cfm [] idx = Inr idx"
| "record_classes cfm ((class_name, attributes) # rest) idx =
     (case record_attributes cfm class_name attributes idx of
        Inl e \<Rightarrow> Inl e
      | Inr idx' \<Rightarrow> record_classes cfm rest idx')"

text \<open>
  \<^verbatim>\<open>find_inconsistent_attributes\<close>. A summary entry \<^verbatim>\<open>{"types": ..., "files": ...}\<close> is
  the pair of the two sets.
\<close>

definition find_inconsistent_attributes ::
  "(string, field_record list) dict \<Rightarrow> (string, string) dict \<Rightarrow>
   error + (string set \<times> (string, string set \<times> string set) dict)" where
  "find_inconsistent_attributes cls cfm =
     (case record_classes cfm cls ([], []) of
        Inl e \<Rightarrow> Inl e
      | Inr (attribute_types, attribute_files) \<Rightarrow>
          Inr (fst ` set (filter (\<lambda>(name, types). card types > 1) attribute_types),
               map (\<lambda>(name, types). (name, (types, set (dd_list attribute_files name))))
                   (filter (\<lambda>(name, types). card types > 1) attribute_types)))"

section \<open>Structure graphs\<close>

text \<open>
  What is handed to the rendering backend: the nodes \<open>(name, label)\<close> in the order of the
  \<^verbatim>\<open>dot.node\<close> calls and the edges \<open>(tail, head, label, dashed)\<close> in the order of the
  \<^verbatim>\<open>dot.edge\<close> calls. Rendering itself, creating the output directory and writing the
  HTML report are outside the model.
\<close>

record digraph =
  nodes :: "(string \<times> string) list"
  edges :: "(string \<times> string \<times> string \<times> bool) list"

text \<open>Lines 243 to 248: the label row of one attribute.\<close>

definition attribute_row :: "string set \<Rightarrow> field_record \<Rightarrow> string" where
  "attribute_row inconsistent_attributes field =
     (case field of (attr_name, attr_type, is_nested) \<Rightarrow>
        if attr_name \<in> inconsistent_attributes
        then ''<TR><TD ALIGN='LEFT' BGCOLOR='#FFC0C0'><B>'' @ attr_name @ '': '' @ attr_type
               @ ''</B></TD></TR>''
        else if is_nested
        then ''<TR><TD ALIGN='LEFT' BGCOLOR='lightyellow'><B>'' @ attr_name @ '': '' @ attr_type
               @ ''</B></TD></TR>''
        else ''<TR><TD ALIGN='LEFT'>'' @ attr_name @ '': '' @ attr_type @ ''</TD></TR>'')"

text \<open>Lines 240 to 249: the label of one class, built by appending row after row.\<close>

definition class_header :: "string \<Rightarrow> string" where
  "class_header class_name =
     ''<<TABLE BORDER='0' CELLBORDER='1' CELLSPACING='0'>''
       @ ''<TR><TD BGCOLOR='lightblue'><B>'' @ class_name @ ''</B></TD></TR>''"

definition class_label :: "string set \<Rightarrow> string \<Rightarrow> field_record list \<Rightarrow> string" where
  "class_label inconsistent_attributes class_name attributes =
     fold (\<lambda>field label. label @ attribute_row inconsistent_attributes field) attributes
       (class_header class_name) @ ''</TABLE>>''"

definition generate_inconsistent_model_diagram ::
  "(string, field_record list) dict \<Rightarrow> nested_reference list \<Rightarrow> string set \<Rightarrow> digraph" where
  "generate_inconsistent_model_diagram cls relationships inconsistent_attributes =
     \<lparr> nodes = map (\<lambda>(class_name, attributes).
                      (class_name, class_label inconsistent_attributes class_name attributes)) cls,
       edges = map (\<lambda>(parent, attr_name, child). (parent, child, attr_name, False))
                 relationships \<rparr>"

text \<open>
  \<^verbatim>\<open>os.path.basename\<close> and the root part of \<^verbatim>\<open>os.path.splitext\<close> on a POSIX path: the
  extension starts at the last dot, unless only dots come before it.
\<close>

definition os_path_basename :: "string \<Rightarrow> string" where
  "os_path_basename p = rev (takeWhile (\<lambda>c. c \<noteq> CHR ''/'') (rev p))"

definition splitext_root :: "string \<Rightarrow> string" where
  "splitext_root p =
     (let stem = rev (tl (dropWhile (\<lambda>c. c \<noteq> CHR ''.'') (rev p)))
      in if CHR ''.'' \<in> set p \<and> list_ex (\<lambda>c. c \<noteq> CHR ''.'') stem then stem else p)"

text \<open>Lines 294 to 297: the rows of a class's methods.\<close>

fun method_row :: "stmt \<Rightarrow> string" where
  "method_row (FunctionDef name) =
     ''<TR><TD ALIGN='LEFT' BGCOLOR='lightyellow'>'' @ name @ ''()</TD></TR>''"
| "method_row item = []"

text \<open>
  Lines 288 to 313, one iteration of the first pass over \<^verbatim>\<open>tree.body\<close>; the state is
  the graph and the dictionary \<^verbatim>\<open>classes\<close>, of whose nodes only \<^verbatim>\<open>bases\<close> is read later.
\<close>

fun first_pass ::
  "string \<Rightarrow> stmt \<Rightarrow> digraph \<times> (string, expr list) dict \<Rightarrow> digraph \<times> (string, expr list) dict" where
  "first_pass file_name (ClassDef name bases cbody) (dot, cls) =
     (\<lparr> nodes = nodes dot @
                 [(''class_'' @ name,
                   class_header name @ concat (map method_row cbody) @ ''</TABLE>>'')],
        edges = edges dot @ [(file_name, ''class_'' @ name, [], False)] \<rparr>,
      dict_set cls name bases)"
| "first_pass file_name (FunctionDef name) (dot, cls) =
     (\<lparr> nodes = nodes dot @
                 [(''func_'' @ name,
                   ''<<TABLE BORDER='0' CELLBORDER='1' CELLSPACING='0'>''
                     @ ''<TR><TD BGCOLOR='lightblue'><B>'' @ name @ ''()</B></TD></TR>''
                     @ ''</TABLE>>'')],
        edges = edges dot @ [(file_name, ''func_'' @ name, [], False)] \<rparr>,
      cls)"
| "first_pass file_name node acc = acc"

text \<open>Lines 316 to 322, the inheritance edges of one class.\<close>

fun inheritance_edge ::
  "(string, expr list) dict \<Rightarrow> string \<Rightarrow> expr \<Rightarrow> (string \<times> string \<times> string \<times> bool) list" where
  "inheritance_edge cls class_name (Name base_name) =
     (if base_name \<in> set (map fst cls)
      then [(''class_'' @ base_name, ''class_'' @ class_name, [], True)] else [])"
| "inheritance_edge cls class_name base = []"

definition file_structure :: "string \<Rightarrow> stmt list \<Rightarrow> digraph" where
  "file_structure file_name body =
     (case fold (first_pass file_name) body
             (\<lparr> nodes = [(file_name, ''<<B>'' @ file_name @ ''.py</B>>'')], edges = [] \<rparr>, []) of
        (dot, cls) \<Rightarrow>
          dot \<lparr> edges := edges dot @
                  concat (map (\<lambda>(class_name, bases).
                                 concat (map (inheritance_edge cls class_name) bases)) cls) \<rparr>)"

text \<open>
  \<^verbatim>\<open>generate_python_file_diagram\<close>: the graph, if one was built, and the line printed.
  Reading and parsing happen inside the \<^verbatim>\<open>try\<close>, and \<^verbatim>\<open>except Exception\<close> catches what
  they raise.
\<close>

definition generate_python_file_diagram ::
  "(string \<Rightarrow> error + stmt list) \<Rightarrow> string \<Rightarrow> string \<Rightarrow> digraph option \<times> string" where
  "generate_python_file_diagram parse output_dir file_path =
     (let file_name = splitext_root (os_path_basename file_path);
          output_file = os_path_join output_dir (''python_'' @ file_name)
      in case parse file_path of
           Inl e \<Rightarrow> (None, ''Error generating diagram for '' @ file_path @ '': '' @ error_str e)
         | Inr body \<Rightarrow>
             (Some (file_structure file_name body),
              ''Python file structure diagram saved as '' @ output_file @ ''.png''))"

section \<open>The analysis run\<close>

text \<open>
  The block under \<^verbatim>\<open>if __name__ == "__main__"\<close>, after the argument check: the
  aggregation, the detector and the folder-wide diagram, then one structure diagram per
  file. Every file is read twice, once by the aggregation and once for its own diagram;
  \<open>parse\<close> is the first reading and \<open>parse_again\<close> the second. No exception is caught in
  this block, so an error of the first two calls ends the run.
\<close>

definition main_block ::
  "(string \<Rightarrow> error + stmt list) \<Rightarrow> (string \<Rightarrow> error + stmt list) \<Rightarrow>
   (string \<times> string list \<times> string list) list \<Rightarrow>
   error + ((string, string set \<times> string set) dict \<times> digraph \<times> (digraph option \<times> string) list)" where
  "main_block parse parse_again walk =
     (case analyze_models_folder parse walk of
        Inl e \<Rightarrow> Inl e
      | Inr agg \<Rightarrow>
          (case find_inconsistent_attributes (all_classes agg) (class_to_file_map agg) of
             Inl e \<Rightarrow> Inl e
           | Inr (inconsistent_attributes, inconsistency_summary) \<Rightarrow>
               Inr (inconsistency_summary,
                    generate_inconsistent_model_diagram (all_classes agg) (all_relationships agg)
                      inconsistent_attributes,
                    map (generate_python_file_diagram parse_again ''visual'') (py_files walk))))"

section \<open>Notions of the specification\<close>

text \<open>
  The annotation shapes the specification names: a bare name, a subscript, a qualified
  attribute. Everything else is an unrecognised shape.
\<close>

fun handled_shape :: "expr \<Rightarrow> bool" where
  "handled_shape (Name ident) = True"
| "handled_shape (Subscript v sl) = True"
| "handled_shape (Attribute v a) = True"
| "handled_shape _ = False"

section \<open>Closed forms\<close>

text \<open>
  Closed forms of the extraction loops. \<open>class_items\<close> lists the top-level class
  definitions of a file in source order; \<open>declared_field\<close> and \<open>declared_ref\<close> are
  what one statement of a class body contributes to the attribute list and to the
  nested-reference list.
\<close>

definition class_items :: "stmt list \<Rightarrow> (string, expr list \<times> stmt list) dict" where
  "class_items body =
     concat (map (\<lambda>node. case node of ClassDef name bases cbody \<Rightarrow> [(name, (bases, cbody))]
                                    | _ \<Rightarrow> []) body)"

definition is_nested_type :: "(string, expr list \<times> stmt list) dict \<Rightarrow> string \<Rightarrow> bool" where
  "is_nested_type class_definitions attr_type =
     (case inner_model_of class_definitions attr_type of None \<Rightarrow> False | Some m \<Rightarrow> m \<noteq> [])"

fun declared_field :: "(string, expr list \<times> stmt list) dict \<Rightarrow> stmt \<Rightarrow> field_record list" where
  "declared_field class_definitions (AnnAssign (Name attr_name) annotation) =
     [(attr_name, resolve_type annotation,
       is_nested_type class_definitions (resolve_type annotation))]"
| "declared_field class_definitions child = []"

fun declared_ref ::
  "(string, expr list \<times> stmt list) dict \<Rightarrow> string \<Rightarrow> stmt \<Rightarrow> nested_reference list" where
  "declared_ref class_definitions class_name (AnnAssign (Name attr_name) annotation) =
     (case inner_model_of class_definitions (resolve_type annotation) of
        None \<Rightarrow> []
      | Some m \<Rightarrow> if m \<noteq> [] then [(class_name, attr_name, m)] else [])"
| "declared_ref class_definitions class_name child = []"

text \<open>
  The last top-level definition of a class name in a file, and the annotated fields of
  a class body in declaration order.
\<close>

definition last_class_def :: "stmt list \<Rightarrow> string \<Rightarrow> (expr list \<times> stmt list) option" where
  "last_class_def body class_name = map_of (rev (class_items body)) class_name"

fun annotated_field :: "stmt \<Rightarrow> (string \<times> expr) list" where
  "annotated_field (AnnAssign (Name attr_name) annotation) = [(attr_name, annotation)]"
| "annotated_field child = []"

definition annotated_fields :: "stmt list \<Rightarrow> (string \<times> expr) list" where
  "annotated_fields cbody = concat (map annotated_field cbody)"

text \<open>
  The types recorded for an attribute name across all classes of a table, under a
  normalisation \<open>norm\<close>: with \<open>normalize_type_spec\<close> the set the specification speaks
  of, with \<open>normalize_type\<close> the set the code collects. \<open>owning_files\<close> is the set of
  files of the classes that have an attribute of that name. \<open>types_at\<close> reads
  \<^verbatim>\<open>attribute_types\<close> the way a \<^verbatim>\<open>defaultdict(set)\<close> is read.
\<close>

definition recorded_types ::
  "(string \<Rightarrow> string) \<Rightarrow> (string, field_record list) dict \<Rightarrow> string \<Rightarrow> string set" where
  "recorded_types norm cls name =
     set [norm attr_type.
            (class_name, attributes) \<leftarrow> cls,
            (attr_name, attr_type, is_nested) \<leftarrow> attributes, attr_name = name]"

definition owning_files ::
  "(string, field_record list) dict \<Rightarrow> (string, string) dict \<Rightarrow> string \<Rightarrow> string set" where
  "owning_files cls cfm name =
     set [file.
            (class_name, attributes) \<leftarrow> cls,
            (attr_name, attr_type, is_nested) \<leftarrow> attributes, attr_name = name,
            Some file \<leftarrow> [map_of cfm class_name]]"

definition types_at :: "(string, string set) dict \<Rightarrow> string \<Rightarrow> string set" where
  "types_at d k = (case map_of d k of None \<Rightarrow> {} | Some s \<Rightarrow> s)"

section \<open>Properties of the string functions\<close>

lemma split_str_nonempty: "split_str sep s \<noteq> []"
  by (induction s) (simp_all add: Let_def)

lemma split_str_no_sep: "sep \<notin> set s \<Longrightarrow> split_str sep s = [s]"
  by (induction s) (auto simp: Let_def)

lemma split_str_append:
  "sep \<notin> set a \<Longrightarrow> split_str sep (a @ sep # b) = a # split_str sep b"
  by (induction a) (auto simp: Let_def)

lemma split_str_length: "sep \<in> set s \<Longrightarrow> 2 \<le> length (split_str sep s)"
proof -
  assume "sep \<in> set s"
  then obtain a b where "s = a @ sep # b" "sep \<notin> set a"
    by (meson split_list_first)
  then show ?thesis
    using split_str_nonempty [of sep b] by (cases "split_str sep b") (simp_all add: split_str_append)
qed

lemma last_split_str:
  "sep \<notin> set b \<Longrightarrow> last (split_str sep (a @ sep # b)) = b"
proof (induction a)
  case Nil
  then show ?case by (simp add: split_str_no_sep)
next
  case (Cons c a)
  have ne: "split_str sep (a @ sep # b) \<noteq> []" by (rule split_str_nonempty)
  show ?case
  proof (cases "c = sep")
    case True
    with Cons ne show ?thesis by simp
  next
    case False
    obtain x xs where eq: "split_str sep (a @ sep # b) = x # xs"
      using ne by (cases "split_str sep (a @ sep # b)") auto
    have "xs \<noteq> []"
      using split_str_length [of sep "a @ sep # b"] eq by auto
    with Cons False eq show ?thesis by simp
  qed
qed

lemma rstrip_chr_closers:
  "s = [] \<or> last s \<noteq> c \<Longrightarrow> rstrip_chr c (s @ replicate n c) = s"
proof -
  assume h: "s = [] \<or> last s \<noteq> c"
  have "dropWhile (\<lambda>x. x = c) (replicate n c @ rev s) = dropWhile (\<lambda>x. x = c) (rev s)"
    by (induction n) simp_all
  moreover have "dropWhile (\<lambda>x. x = c) (rev s) = rev s"
    using h by (cases s rule: rev_cases) auto
  ultimately show ?thesis by (simp add: rstrip_chr_def)
qed

section \<open>Type resolution\<close>

text \<open>
  Claim C3. \<open>resolve_type\<close> is a total function into strings, with no error branch: a
  bare name resolves to itself, a qualified attribute to its trailing name, a subscript
  whose outer name is \<open>List\<close>, \<open>Optional\<close> or \<open>Dict\<close> and whose argument is a name, a
  subscript or an attribute to \<open>Outer[Inner]\<close> with the argument resolved recursively,
  every other subscript to \<open>ComplexType\<close>, and every other annotation to \<open>Unknown\<close>.
\<close>

theorem resolve_type_cases:
  "resolve_type (Name ident) = ident
   \<and> resolve_type (Attribute q a) = a
   \<and> (container \<in> {''List'', ''Optional'', ''Dict''} \<and> handled_shape sl \<longrightarrow>
        resolve_type (Subscript (Name container) sl) = container @ ''['' @ resolve_type sl @ '']'')
   \<and> (\<not> (\<exists>c. v = Name c \<and> c \<in> {''List'', ''Optional'', ''Dict''} \<and> handled_shape sl') \<longrightarrow>
        resolve_type (Subscript v sl') = ''ComplexType'')
   \<and> (\<not> handled_shape ann \<longrightarrow> resolve_type ann = ''Unknown'')"
proof (intro conjI impI)
  show "resolve_type (Name ident) = ident" by simp
  show "resolve_type (Attribute q a) = a" by simp
  show "resolve_type (Subscript (Name container) sl) = container @ ''['' @ resolve_type sl @ '']''"
    if "container \<in> {''List'', ''Optional'', ''Dict''} \<and> handled_shape sl"
    using that by (cases sl) auto
  show "resolve_type (Subscript v sl') = ''ComplexType''"
    if "\<not> (\<exists>c. v = Name c \<and> c \<in> {''List'', ''Optional'', ''Dict''} \<and> handled_shape sl')"
    using that by (cases v; cases sl') auto
  show "resolve_type ann = ''Unknown''" if "\<not> handled_shape ann"
    using that by (cases ann) auto
qed

text \<open>
  The theorem of claim C3 at \<open>int\<close>, \<open>pydantic.BaseModel\<close>, \<open>List[Optional[Foo]]\<close>,
  \<open>Dict[str, int]\<close> and a string constant.
\<close>

theorem resolve_type_cases_witness:
  "resolve_type (Name ''int'') = ''int''
   \<and> resolve_type (Attribute (Name ''pydantic'') ''BaseModel'') = ''BaseModel''
   \<and> ''List'' \<in> {''List'', ''Optional'', ''Dict''}
   \<and> handled_shape (Subscript (Name ''Optional'') (Name ''Foo''))
   \<and> resolve_type (Subscript (Name ''List'') (Subscript (Name ''Optional'') (Name ''Foo'')))
       = ''List[Optional[Foo]]''
   \<and> \<not> (\<exists>c. Name ''Dict'' = Name c \<and> c \<in> {''List'', ''Optional'', ''Dict''}
             \<and> handled_shape (Tuple [Name ''str'', Name ''int'']))
   \<and> resolve_type (Subscript (Name ''Dict'') (Tuple [Name ''str'', Name ''int''])) = ''ComplexType''
   \<and> \<not> handled_shape (Constant ''Foo'')
   \<and> resolve_type (Constant ''Foo'') = ''Unknown''"
  using resolve_type_cases [of "''int''" "Name ''pydantic''" "''BaseModel''" "''List''"
      "Subscript (Name ''Optional'') (Name ''Foo'')" "Name ''Dict''"
      "Tuple [Name ''str'', Name ''int'']" "Constant ''Foo''"]
  by simp

section \<open>Type normalisation\<close>

text \<open>
  Claim C4 does not hold of the code on a nested generic. The split at \<open>[\<close> cuts
  \<open>List[Optional[Foo]]\<close> into the three segments \<open>List\<close>, \<open>Optional\<close> and \<open>Foo]]\<close>,
  and \<^verbatim>\<open>normalize_type\<close> returns the second one, the wrapper name \<open>Optional\<close>. The
  claim asks for the text \<open>Optional[Foo]\<close> between the first \<open>[\<close> and the last \<open>]\<close>;
  the docstring of the function promises that wrappers are removed and only the core
  type is compared; and the extractor, which takes the last segment of the same split,
  gets \<open>Foo\<close> from the same descriptor.
\<close>

theorem normalize_type_nested_returns_wrapper:
  "normalize_type ''List[Optional[Foo]]'' = ''Optional''
   \<and> normalize_type_spec ''List[Optional[Foo]]'' = ''Optional[Foo]''
   \<and> inner_model_of [] ''List[Optional[Foo]]'' = Some ''Foo''"
  by (simp add: normalize_type_def normalize_type_spec_def between_brackets_def rstrip_chr_def
      inner_model_of_def Let_def)

text \<open>
  Where the code and the specification agree: a descriptor without \<open>[\<close> is returned
  unchanged, and a single-level descriptor \<open>Outer[Inner]\<close>, where neither part contains
  a \<open>[\<close> and \<open>Inner\<close> does not end in \<open>]\<close>, is normalised to \<open>Inner\<close>, the text
  strictly between its first \<open>[\<close> and its last \<open>]\<close>.
\<close>

lemma normalize_type_single_level:
  "(CHR ''['' \<notin> set s \<longrightarrow> normalize_type s = s \<and> normalize_type_spec s = s)
   \<and> (CHR ''['' \<notin> set outer \<and> CHR ''['' \<notin> set inner \<and> (inner = [] \<or> last inner \<noteq> CHR '']'') \<longrightarrow>
        normalize_type (outer @ ''['' @ inner @ '']'') = inner
        \<and> normalize_type_spec (outer @ ''['' @ inner @ '']'') = inner)"
proof (intro conjI impI)
  show "normalize_type s = s" if "CHR ''['' \<notin> set s"
    using that by (simp add: normalize_type_def)
  show "normalize_type_spec s = s" if "CHR ''['' \<notin> set s"
    using that by (simp add: normalize_type_spec_def)
next
  assume h: "CHR ''['' \<notin> set outer \<and> CHR ''['' \<notin> set inner \<and> (inner = [] \<or> last inner \<noteq> CHR '']'')"
  have sp: "split_str CHR ''['' (outer @ CHR ''['' # inner @ '']'') = [outer, inner @ '']'']"
    using h by (simp add: split_str_append split_str_no_sep)
  have rs: "rstrip_chr CHR '']'' (inner @ replicate 1 CHR '']'') = inner"
    using h by (intro rstrip_chr_closers) simp
  show "normalize_type (outer @ ''['' @ inner @ '']'') = inner"
    using sp rs by (simp add: normalize_type_def)
  have dw: "dropWhile (\<lambda>c. c \<noteq> CHR ''['') (outer @ CHR ''['' # inner @ '']'') = CHR ''['' # inner @ '']''"
  proof -
    have "\<forall>x\<in>set outer. x \<noteq> CHR ''[''" using h by auto
    then show ?thesis by (simp add: dropWhile_append)
  qed
  show "normalize_type_spec (outer @ ''['' @ inner @ '']'') = inner"
    using dw by (simp add: normalize_type_spec_def between_brackets_def)
qed

section \<open>Properties of the dictionary operations\<close>

lemma dict_set_new: "k \<notin> fst ` set d \<Longrightarrow> dict_set d k v = d @ [(k, v)]"
  by (induction d) auto

lemma map_of_dict_set: "map_of (dict_set d k v) = (map_of d)(k \<mapsto> v)"
  by (induction d) (auto simp: fun_eq_iff)

lemma set_keys_dict_set: "fst ` set (dict_set d k v) = insert k (fst ` set d)"
proof (induction d)
  case Nil
  then show ?case by simp
next
  case (Cons kv d)
  obtain k' v' where kv: "kv = (k', v')" by (cases kv)
  show ?case using Cons.IH by (cases "k' = k") (simp_all add: kv insert_commute)
qed

lemma keys_dict_set:
  "map fst (dict_set d k v) = (if k \<in> fst ` set d then map fst d else map fst d @ [k])"
proof (induction d)
  case Nil
  then show ?case by simp
next
  case (Cons kv d)
  obtain k' v' where kv: "kv = (k', v')" by (cases kv)
  show ?case
  proof (cases "k' = k")
    case True
    then show ?thesis by (simp add: kv)
  next
    case False
    then show ?thesis using Cons.IH by (simp add: kv)
  qed
qed

lemma distinct_dict_set: "distinct (map fst d) \<Longrightarrow> distinct (map fst (dict_set d k v))"
  by (simp add: keys_dict_set)

lemma dict_set_twice: "dict_set (dict_set d k v) k w = dict_set d k w"
  by (induction d) auto

lemma dict_set_commute:
  "n \<in> fst ` set d \<Longrightarrow> k \<noteq> n \<Longrightarrow>
   dict_set (dict_set d n x) k v = dict_set (dict_set d k v) n x"
proof (induction d)
  case Nil
  then show ?case by simp
next
  case (Cons kv d)
  obtain k' v' where kv: "kv = (k', v')" by (cases kv)
  show ?case
  proof (cases "k' = n")
    case True
    then show ?thesis using Cons.prems by (simp add: kv)
  next
    case False
    then have "n \<in> fst ` set d" using Cons.prems by (simp add: kv)
    then show ?thesis using False Cons.IH Cons.prems by (simp add: kv)
  qed
qed

lemma map_of_dict_update: "map_of (dict_update d other) = map_of d ++ map_of (rev other)"
  unfolding dict_update_def
proof (induction other arbitrary: d)
  case Nil
  then show ?case by simp
next
  case (Cons kv other)
  obtain k v where kv: "kv = (k, v)" by (cases kv)
  have "map_of (fold (\<lambda>(k, v) acc. dict_set acc k v) other (dict_set d k v))
        = map_of (dict_set d k v) ++ map_of (rev other)"
    by (rule Cons.IH)
  also have "\<dots> = map_of d ++ (map_of (rev other @ [(k, v)]))"
    by (simp add: map_of_dict_set fun_eq_iff map_add_def split: option.splits)
  finally show ?case by (simp add: kv)
qed

lemma keys_dict_update:
  "map fst (dict_update d other) =
     fold (\<lambda>k ks. if k \<in> set ks then ks else ks @ [k]) (map fst other) (map fst d)"
  unfolding dict_update_def
proof (induction other arbitrary: d)
  case Nil
  then show ?case by simp
next
  case (Cons kv other)
  obtain k v where kv: "kv = (k, v)" by (cases kv)
  show ?case using Cons.IH [of "dict_set d k v"] by (simp add: kv keys_dict_set)
qed

lemma set_keys_dict_update:
  "fst ` set (dict_update d other) = fst ` set d \<union> fst ` set other"
  unfolding dict_update_def
proof (induction other arbitrary: d)
  case Nil
  then show ?case by simp
next
  case (Cons kv other)
  obtain k v where kv: "kv = (k, v)" by (cases kv)
  show ?case using Cons.IH [of "dict_set d k v"] by (simp add: kv set_keys_dict_set)
qed

lemma distinct_dict_update:
  "distinct (map fst d) \<Longrightarrow> distinct (map fst (dict_update d other))"
  unfolding dict_update_def
proof (induction other arbitrary: d)
  case Nil
  then show ?case by simp
next
  case (Cons kv other)
  obtain k v where kv: "kv = (k, v)" by (cases kv)
  show ?case using Cons.IH [of "dict_set d k v"] Cons.prems
    by (simp add: kv distinct_dict_set)
qed

section \<open>The extraction loops in closed form\<close>

lemma class_definitions_items: "class_definitions_of body = dict_update [] (class_items body)"
proof -
  have "fold (\<lambda>node d. case node of ClassDef name bases cbody \<Rightarrow> dict_set d name (bases, cbody)
                                  | _ \<Rightarrow> d) body d
        = fold (\<lambda>(k, v) acc. dict_set acc k v) (class_items body) d" for d
    by (induction body arbitrary: d) (auto simp: class_items_def split: stmt.splits)
  then show ?thesis by (simp add: class_definitions_of_def dict_update_def)
qed

lemma distinct_class_definitions: "distinct (map fst (class_definitions_of body))"
  by (simp add: class_definitions_items distinct_dict_update)

lemma map_of_class_definitions:
  "map_of (class_definitions_of body) = map_of (rev (class_items body))"
  by (simp add: class_definitions_items map_of_dict_update)

lemma keys_class_definitions:
  "fst ` set (class_definitions_of body) = fst ` set (class_items body)"
  by (simp add: class_definitions_items set_keys_dict_update)

lemma extract_child_fold:
  "fold (extract_child defs cn) cbody (rels, attrs) =
     (rels @ concat (map (declared_ref defs cn) cbody),
      attrs @ concat (map (declared_field defs) cbody))"
proof (induction cbody arbitrary: rels attrs)
  case Nil
  then show ?case by simp
next
  case (Cons child cbody)
  have step: "extract_child defs cn child (rels, attrs) =
          (rels @ declared_ref defs cn child, attrs @ declared_field defs child)"
  proof (cases child)
    case (AnnAssign target annotation)
    then show ?thesis
      by (cases target) (auto simp: is_nested_type_def Let_def split: option.splits)
  qed simp_all
  show ?case by (simp add: step Cons.IH)
qed

lemma extract_class_step:
  assumes "cn \<notin> fst ` set (classes acc)" "cn \<notin> fst ` set (file_to_class_map acc)"
  shows "extract_class fp defs (cn, bases, cbody) acc =
      \<lparr> classes = classes acc @ [(cn, concat (map (declared_field defs) cbody))],
        base_models = base_models acc \<union> (if check_inheritance bases then {cn} else {}),
        nested_relationships = nested_relationships acc @ concat (map (declared_ref defs cn) cbody),
        file_to_class_map = file_to_class_map acc @ [(cn, fp)] \<rparr>"
  using assms by (simp add: extract_class_def extract_child_fold dict_set_new)

lemma extract_class_fold:
  "distinct (map fst items) \<Longrightarrow> fst ` set items \<inter> fst ` set (classes acc) = {} \<Longrightarrow>
   fst ` set items \<inter> fst ` set (file_to_class_map acc) = {} \<Longrightarrow>
   fold (extract_class fp defs) items acc =
     \<lparr> classes = classes acc @
         map (\<lambda>(cn, bases, cbody). (cn, concat (map (declared_field defs) cbody))) items,
       base_models = base_models acc \<union>
         {cn. \<exists>bases cbody. (cn, bases, cbody) \<in> set items \<and> check_inheritance bases},
       nested_relationships = nested_relationships acc @
         concat (map (\<lambda>(cn, bases, cbody). concat (map (declared_ref defs cn) cbody)) items),
       file_to_class_map = file_to_class_map acc @ map (\<lambda>(cn, bases, cbody). (cn, fp)) items \<rparr>"
proof (induction items arbitrary: acc)
  case Nil
  then show ?case by simp
next
  case (Cons item items)
  obtain cn bases cbody where item: "item = (cn, bases, cbody)" by (cases item)
  let ?acc = "extract_class fp defs (cn, bases, cbody) acc"
  have new1: "cn \<notin> fst ` set (classes acc)" and new2: "cn \<notin> fst ` set (file_to_class_map acc)"
    using Cons.prems by (auto simp: item)
  note acc' = extract_class_step [OF new1 new2, of fp defs bases cbody]
  have fresh: "cn \<notin> fst ` set items" using Cons.prems(1) by (simp add: item)
  have d: "distinct (map fst items)" using Cons.prems by simp
  have i1: "fst ` set items \<inter> fst ` set (classes ?acc) = {}"
    using Cons.prems(2) fresh by (auto simp: acc')
  have i2: "fst ` set items \<inter> fst ` set (file_to_class_map ?acc) = {}"
    using Cons.prems(3) fresh by (auto simp: acc')
  have bm: "base_models acc \<union> (if check_inheritance bases then {cn} else {}) \<union>
          {c. \<exists>bases cbody. (c, bases, cbody) \<in> set items \<and> check_inheritance bases}
        = base_models acc \<union>
          {c. \<exists>bs cb. (c, bs, cb) \<in> set ((cn, bases, cbody) # items) \<and> check_inheritance bs}"
    by auto
  have "fold (extract_class fp defs) (item # items) acc = fold (extract_class fp defs) items ?acc"
    by (simp add: item)
  also note Cons.IH [OF d i1 i2]
  finally show ?case
    unfolding acc' item using bm by simp
qed

lemma extract_tree_eq:
  "extract_tree fp body =
     (let defs = class_definitions_of body in
      \<lparr> classes = map (\<lambda>(cn, bases, cbody). (cn, concat (map (declared_field defs) cbody))) defs,
        base_models = {cn. \<exists>bases cbody. (cn, bases, cbody) \<in> set defs \<and> check_inheritance bases},
        nested_relationships =
          concat (map (\<lambda>(cn, bases, cbody). concat (map (declared_ref defs cn) cbody)) defs),
        file_to_class_map = map (\<lambda>(cn, bases, cbody). (cn, fp)) defs \<rparr>)"
  unfolding extract_tree_def Let_def
  by (subst extract_class_fold) (simp_all add: distinct_class_definitions)

section \<open>Nested references\<close>

lemma class_definitions_lookup:
  "map_of (class_definitions_of body) cn = last_class_def body cn"
  by (simp add: map_of_class_definitions last_class_def_def)

lemma class_definitions_member:
  "((cn, v) \<in> set (class_definitions_of body)) = (last_class_def body cn = Some v)"
  using map_of_eq_Some_iff [OF distinct_class_definitions, of body cn v]
  by (simp add: class_definitions_lookup)

lemma classes_lookup:
  "map_of (classes (extract_tree fp body)) cn =
     map_option (\<lambda>(bases, cbody). concat (map (declared_field (class_definitions_of body)) cbody))
       (last_class_def body cn)"
proof -
  let ?defs = "class_definitions_of body"
  let ?g = "\<lambda>(bases, cbody). concat (map (declared_field ?defs) cbody)"
  have "classes (extract_tree fp body) = map (\<lambda>(k, v). (k, ?g v)) ?defs"
    by (simp add: extract_tree_eq Let_def case_prod_unfold)
  then show ?thesis
    by (simp add: map_of_map class_definitions_lookup)
qed

lemma base_models_member:
  "last_class_def body cn = Some (bases, cbody) \<Longrightarrow>
     (cn \<in> base_models (extract_tree fp body)) = check_inheritance bases"
  by (simp add: extract_tree_eq Let_def class_definitions_member)

lemma inner_model_of_generic:
  assumes "CHR ''['' \<notin> set inner" "inner = [] \<or> last inner \<noteq> CHR '']''"
  shows "inner_model_of defs (pre @ ''['' @ inner @ replicate n CHR '']'') = Some inner"
proof -
  have "last (split_str CHR ''['' (pre @ CHR ''['' # (inner @ replicate n CHR '']''))) =
          inner @ replicate n CHR '']''"
    using assms(1) by (intro last_split_str) auto
  then show ?thesis
    using rstrip_chr_closers [OF assms(2), of n] by (simp add: inner_model_of_def)
qed

text \<open>
  Claim C2 does not hold of the code. For a class \<open>A\<close> with the one field
  \<open>xs: List[str]\<close>, in a file that defines no class \<open>str\<close>, the extractor marks the
  field nested and emits the reference \<open>(A, xs, str)\<close>: the branch for a type with a
  \<open>[\<close> never looks the inner name up in the class table, as the branch for a bare name
  does.
\<close>

theorem generic_of_unknown_name_marked_nested:
  "last_class_def [ClassDef ''A'' [] [AnnAssign (Name ''xs'') (Subscript (Name ''List'') (Name ''str''))]]
     ''str'' = None
   \<and> extract_tree ''m.py''
       [ClassDef ''A'' [] [AnnAssign (Name ''xs'') (Subscript (Name ''List'') (Name ''str''))]]
     = \<lparr> classes = [(''A'', [(''xs'', ''List[str]'', True)])], base_models = {},
         nested_relationships = [(''A'', ''xs'', ''str'')],
         file_to_class_map = [(''A'', ''m.py'')] \<rparr>"
  by (simp add: last_class_def_def class_items_def extract_tree_def class_definitions_of_def
      extract_class_def inner_model_of_def rstrip_chr_def check_inheritance_def Let_def)

text \<open>
  Claim C5 as stated fails on a nested generic: for a field of type
  \<open>List[Optional[Foo]]\<close> the reference emitted has the target \<open>Foo\<close>, while the text
  between the first \<open>[\<close> and the last \<open>]\<close> is \<open>Optional[Foo]\<close>.
\<close>

theorem nested_target_counterexample:
  "nested_relationships (extract_tree ''m.py''
     [ClassDef ''Foo'' [] [],
      ClassDef ''A'' [] [AnnAssign (Name ''x'')
         (Subscript (Name ''List'') (Subscript (Name ''Optional'') (Name ''Foo'')))]])
     = [(''A'', ''x'', ''Foo'')]
   \<and> between_brackets (resolve_type
         (Subscript (Name ''List'') (Subscript (Name ''Optional'') (Name ''Foo''))))
     = ''Optional[Foo]''"
  by (simp add: extract_tree_def class_definitions_of_def between_brackets_def
      extract_class_def inner_model_of_def rstrip_chr_def check_inheritance_def Let_def)

text \<open>
  Claim C5, amended. For a field whose resolved type ends in \<open>[Inner\<close> followed by any
  number of \<open>]\<close>, where \<open>Inner\<close> is not empty, contains no \<open>[\<close> and does not end in
  \<open>]\<close>, the extractor emits the reference with target \<open>Inner\<close>, the text after the last
  \<open>[\<close> without the closing brackets, and marks the field nested; the reference is in
  the extraction result of every file whose class table holds that class body. For a
  single-level descriptor \<open>Outer[Inner]\<close> this target is the text between the first
  \<open>[\<close> and the last \<open>]\<close>.
\<close>

theorem nested_target_innermost:
  assumes "resolve_type annotation = pre @ ''['' @ inner @ replicate n CHR '']''"
    and "CHR ''['' \<notin> set inner" and "inner \<noteq> []" and "last inner \<noteq> CHR '']''"
  shows "extract_child defs cn (AnnAssign (Name a) annotation) (rels, attrs) =
           (rels @ [(cn, a, inner)], attrs @ [(a, resolve_type annotation, True)])
         \<and> (last_class_def body cn = Some (bases, cbody)
              \<and> AnnAssign (Name a) annotation \<in> set cbody \<longrightarrow>
            (cn, a, inner) \<in> set (nested_relationships (extract_tree fp body)))
         \<and> (CHR ''['' \<notin> set pre \<and> n = 1 \<longrightarrow> between_brackets (resolve_type annotation) = inner)"
proof (intro conjI impI)
  have im: "inner_model_of d (resolve_type annotation) = Some inner" for d
    using inner_model_of_generic [of inner d pre n] assms by simp
  show "extract_child defs cn (AnnAssign (Name a) annotation) (rels, attrs) =
           (rels @ [(cn, a, inner)], attrs @ [(a, resolve_type annotation, True)])"
    using assms(3) by (simp add: im)
  show "(cn, a, inner) \<in> set (nested_relationships (extract_tree fp body))"
    if h: "last_class_def body cn = Some (bases, cbody) \<and> AnnAssign (Name a) annotation \<in> set cbody"
  proof -
    let ?defs = "class_definitions_of body"
    have ref: "declared_ref ?defs cn (AnnAssign (Name a) annotation) = [(cn, a, inner)]"
      using assms(3) by (simp add: im)
    have mem: "(cn, bases, cbody) \<in> set ?defs"
      using h by (simp add: class_definitions_member)
    have "(cn, a, inner) \<in> set (concat (map (declared_ref ?defs cn) cbody))"
      using h ref by force
    with mem show ?thesis
      by (force simp: extract_tree_eq Let_def)
  qed
  show "between_brackets (resolve_type annotation) = inner" if h: "CHR ''['' \<notin> set pre \<and> n = 1"
  proof -
    have "\<forall>x\<in>set pre. x \<noteq> CHR ''[''" using h by auto
    then have "dropWhile (\<lambda>c. c \<noteq> CHR ''['') (pre @ CHR ''['' # inner @ '']'') = CHR ''['' # inner @ '']''"
      by (simp add: dropWhile_append)
    then show ?thesis using h assms(1) by (simp add: between_brackets_def)
  qed
qed

text \<open>The amended claim C5 at a field \<open>x: List[Foo]\<close> of a class \<open>A\<close>.\<close>

theorem nested_target_innermost_witness:
  "resolve_type (Subscript (Name ''List'') (Name ''Foo'')) = ''List'' @ ''['' @ ''Foo'' @ replicate 1 CHR '']''
   \<and> CHR ''['' \<notin> set ''Foo'' \<and> ''Foo'' \<noteq> [] \<and> last ''Foo'' \<noteq> CHR '']''
   \<and> extract_child [] ''A'' (AnnAssign (Name ''x'') (Subscript (Name ''List'') (Name ''Foo''))) ([], [])
       = ([(''A'', ''x'', ''Foo'')], [(''x'', ''List[Foo]'', True)])
   \<and> last_class_def [ClassDef ''A'' [] [AnnAssign (Name ''x'') (Subscript (Name ''List'') (Name ''Foo''))]] ''A''
       = Some ([], [AnnAssign (Name ''x'') (Subscript (Name ''List'') (Name ''Foo''))])
   \<and> (''A'', ''x'', ''Foo'') \<in> set (nested_relationships (extract_tree ''m.py''
         [ClassDef ''A'' [] [AnnAssign (Name ''x'') (Subscript (Name ''List'') (Name ''Foo''))]]))
   \<and> CHR ''['' \<notin> set ''List''
   \<and> between_brackets (resolve_type (Subscript (Name ''List'') (Name ''Foo''))) = ''Foo''"
proof -
  have r: "resolve_type (Subscript (Name ''List'') (Name ''Foo'')) = ''List'' @ ''['' @ ''Foo'' @ replicate 1 CHR '']''"
    by simp
  have l: "last_class_def [ClassDef ''A'' [] [AnnAssign (Name ''x'') (Subscript (Name ''List'') (Name ''Foo''))]] ''A''
       = Some ([], [AnnAssign (Name ''x'') (Subscript (Name ''List'') (Name ''Foo''))])"
    by (simp add: last_class_def_def class_items_def)
  show ?thesis
    using nested_target_innermost [OF r, of "[]" "''A''" "''x''" "[]" "[]"
        "[ClassDef ''A'' [] [AnnAssign (Name ''x'') (Subscript (Name ''List'') (Name ''Foo''))]]"
        "[]" "[AnnAssign (Name ''x'') (Subscript (Name ''List'') (Name ''Foo''))]" "''m.py''"] l
    by simp
qed

section \<open>Field order\<close>

lemma declared_field_names:
  "map (\<lambda>(a, t, nested). (a, t)) (concat (map (declared_field defs) cbody)) =
     map (\<lambda>(a, ann). (a, resolve_type ann)) (annotated_fields cbody)"
proof (induction cbody)
  case Nil
  then show ?case by (simp add: annotated_fields_def)
next
  case (Cons child cbody)
  have "map (\<lambda>(a, t, nested). (a, t)) (declared_field defs child) =
        map (\<lambda>(a, ann). (a, resolve_type ann)) (annotated_field child)"
  proof (cases child)
    case (AnnAssign target annotation)
    then show ?thesis by (cases target) simp_all
  qed simp_all
  with Cons.IH show ?case by (simp add: annotated_fields_def)
qed

lemma class_label_rows:
  "class_label incons cn attrs =
     class_header cn @ concat (map (attribute_row incons) attrs) @ ''</TABLE>>''"
proof -
  have "fold (\<lambda>field label. label @ attribute_row incons field) attrs acc =
          acc @ concat (map (attribute_row incons) attrs)" for acc
    by (induction attrs arbitrary: acc) simp_all
  then show ?thesis by (simp add: class_label_def)
qed

text \<open>
  Claim C8. For a class of a file, the attribute list the extractor stores lists the
  annotated fields of the class body, each with its resolved type, in declaration
  order; and the label of a class in the folder-wide diagram is the header row followed
  by one row per attribute, in the order of the stored list, each row showing
  \<open>name: type\<close>.
\<close>

theorem field_order_preserved:
  "(last_class_def body cn = Some (bases, cbody) \<longrightarrow>
      (\<exists>attrs. map_of (classes (extract_tree fp body)) cn = Some attrs
         \<and> map (\<lambda>(a, t, nested). (a, t)) attrs =
             map (\<lambda>(a, ann). (a, resolve_type ann)) (annotated_fields cbody)))
   \<and> nodes (generate_inconsistent_model_diagram cls rels incons) =
       map (\<lambda>(cn, attrs).
              (cn, class_header cn @ concat (map (attribute_row incons) attrs) @ ''</TABLE>>'')) cls
   \<and> (\<exists>pre post. attribute_row incons (a, t, nested) = pre @ a @ '': '' @ t @ post)"
proof (intro conjI impI)
  show "\<exists>attrs. map_of (classes (extract_tree fp body)) cn = Some attrs
         \<and> map (\<lambda>(a, t, nested). (a, t)) attrs =
             map (\<lambda>(a, ann). (a, resolve_type ann)) (annotated_fields cbody)"
    if "last_class_def body cn = Some (bases, cbody)"
    using that by (simp add: classes_lookup declared_field_names)
  show "nodes (generate_inconsistent_model_diagram cls rels incons) =
       map (\<lambda>(cn, attrs).
              (cn, class_header cn @ concat (map (attribute_row incons) attrs) @ ''</TABLE>>'')) cls"
    by (simp add: generate_inconsistent_model_diagram_def class_label_rows)
  show "\<exists>pre post. attribute_row incons (a, t, nested) = pre @ a @ '': '' @ t @ post"
  proof (cases "a \<in> incons")
    case True
    then have "attribute_row incons (a, t, nested) =
        ''<TR><TD ALIGN='LEFT' BGCOLOR='#FFC0C0'><B>'' @ a @ '': '' @ t @ ''</B></TD></TR>''"
      by (simp add: attribute_row_def)
    then show ?thesis by blast
  next
    case False
    show ?thesis
    proof (cases nested)
      case True
      with False have "attribute_row incons (a, t, nested) =
          ''<TR><TD ALIGN='LEFT' BGCOLOR='lightyellow'><B>'' @ a @ '': '' @ t @ ''</B></TD></TR>''"
        by (simp add: attribute_row_def)
      then show ?thesis by blast
    next
      case nn: False
      with False have "attribute_row incons (a, t, nested) =
          ''<TR><TD ALIGN='LEFT'>'' @ a @ '': '' @ t @ ''</TD></TR>''"
        by (simp add: attribute_row_def)
      then show ?thesis by blast
    qed
  qed
qed

text \<open>
  Claim C8 at a class \<open>User\<close> whose body declares \<open>name: str\<close>, a method and
  \<open>age: int\<close>.
\<close>

theorem field_order_preserved_witness:
  "last_class_def [ClassDef ''User'' []
       [AnnAssign (Name ''name'') (Name ''str''), FunctionDef ''f'',
        AnnAssign (Name ''age'') (Name ''int'')]] ''User''
     = Some ([], [AnnAssign (Name ''name'') (Name ''str''), FunctionDef ''f'',
                   AnnAssign (Name ''age'') (Name ''int'')])
   \<and> (\<exists>attrs. map_of (classes (extract_tree ''m.py'' [ClassDef ''User'' []
                  [AnnAssign (Name ''name'') (Name ''str''), FunctionDef ''f'',
                   AnnAssign (Name ''age'') (Name ''int'')]])) ''User'' = Some attrs
        \<and> map (\<lambda>(a, t, nested). (a, t)) attrs = [(''name'', ''str''), (''age'', ''int'')])"
proof -
  let ?cbody = "[AnnAssign (Name ''name'') (Name ''str''), FunctionDef ''f'',
                 AnnAssign (Name ''age'') (Name ''int'')]"
  have l: "last_class_def [ClassDef ''User'' [] ?cbody] ''User'' = Some ([], ?cbody)"
    by (simp add: last_class_def_def class_items_def)
  show ?thesis
    using field_order_preserved [of "[ClassDef ''User'' [] ?cbody]" "''User''" "[]" ?cbody "''m.py''"] l
    by (simp add: annotated_fields_def)
qed

section \<open>Same-named classes in one file\<close>

lemma fold_dict_set_overwritten:
  "n \<in> fst ` set d \<Longrightarrow> n \<in> fst ` set items \<Longrightarrow>
   fold (\<lambda>(k, v) acc. dict_set acc k v) items (dict_set d n x) =
   fold (\<lambda>(k, v) acc. dict_set acc k v) items d"
proof (induction items arbitrary: d)
  case Nil
  then show ?case by simp
next
  case (Cons kv items)
  obtain k v where kv: "kv = (k, v)" by (cases kv)
  show ?case
  proof (cases "k = n")
    case True
    then show ?thesis by (simp add: kv dict_set_twice)
  next
    case False
    have in_items: "n \<in> fst ` set items" using Cons.prems(2) False by (auto simp: kv)
    have in_d: "n \<in> fst ` set (dict_set d k v)"
      using Cons.prems(1) by (simp add: set_keys_dict_set)
    have "dict_set (dict_set d n x) k v = dict_set (dict_set d k v) n x"
      using Cons.prems(1) False by (rule dict_set_commute)
    then show ?thesis
      using Cons.IH [OF in_d in_items] by (simp add: kv)
  qed
qed

lemma class_items_append: "class_items (xs @ ys) = class_items xs @ class_items ys"
  by (simp add: class_items_def)

lemma class_items_ClassDef:
  "class_items (ClassDef n b c # rest) = (n, (b, c)) # class_items rest"
  by (simp add: class_items_def)

lemma class_definitions_earlier_irrelevant:
  assumes "cn \<in> fst ` set (class_items rest)"
  shows "class_definitions_of (pre @ ClassDef cn bases1 cbody1 # rest) =
         class_definitions_of (pre @ ClassDef cn bases2 cbody2 # rest)"
proof -
  let ?f = "\<lambda>(k, v) acc. dict_set acc k (v :: expr list \<times> stmt list)"
  let ?d0 = "fold ?f (class_items pre) []"
  have in2: "cn \<in> fst ` set (dict_set ?d0 cn (bases2, cbody2))"
    by (simp add: set_keys_dict_set)
  have "fold ?f (class_items rest) (dict_set ?d0 cn (bases1, cbody1)) =
        fold ?f (class_items rest) (dict_set (dict_set ?d0 cn (bases2, cbody2)) cn (bases1, cbody1))"
    by (simp add: dict_set_twice)
  also have "\<dots> = fold ?f (class_items rest) (dict_set ?d0 cn (bases2, cbody2))"
    using in2 assms by (rule fold_dict_set_overwritten)
  finally show ?thesis
    by (simp add: class_definitions_items dict_update_def class_items_append class_items_ClassDef)
qed

text \<open>
  Claim C10. When a class name is defined again later in the same file, the extraction
  result does not depend on the bases or the body of the earlier definition: any other
  content in its place gives the same result, so it contributes no field, no base-model
  flag and no nested reference. The entry of a class name is computed from its last
  definition: its attribute list is that definition's fields, and the name is a base
  model exactly when that definition's bases say so.
\<close>

theorem last_definition_in_file_wins:
  "(cn \<in> fst ` set (class_items rest) \<longrightarrow>
      extract_tree fp (pre @ ClassDef cn bases1 cbody1 # rest) =
      extract_tree fp (pre @ ClassDef cn bases2 cbody2 # rest))
   \<and> (last_class_def body cn = Some (bases, cbody) \<longrightarrow>
        map_of (classes (extract_tree fp body)) cn =
          Some (snd (fold (extract_child (class_definitions_of body) cn) cbody ([], [])))
        \<and> (cn \<in> base_models (extract_tree fp body)) = check_inheritance bases)"
proof (intro conjI impI)
  show "extract_tree fp (pre @ ClassDef cn bases1 cbody1 # rest) =
        extract_tree fp (pre @ ClassDef cn bases2 cbody2 # rest)"
    if "cn \<in> fst ` set (class_items rest)"
    using class_definitions_earlier_irrelevant [OF that, of pre bases1 cbody1 bases2 cbody2]
    by (simp add: extract_tree_def)
  show "map_of (classes (extract_tree fp body)) cn =
          Some (snd (fold (extract_child (class_definitions_of body) cn) cbody ([], [])))"
    if "last_class_def body cn = Some (bases, cbody)"
    using that by (simp add: classes_lookup extract_child_fold)
  show "(cn \<in> base_models (extract_tree fp body)) = check_inheritance bases"
    if "last_class_def body cn = Some (bases, cbody)"
    using that by (rule base_models_member)
qed

text \<open>
  Claim C10 at a file that defines \<open>A\<close> twice, first as a base model with a field
  \<open>x: B\<close>, then plainly with a field \<open>y: int\<close>, and a class \<open>B\<close>.
\<close>

theorem last_definition_in_file_wins_witness:
  "''A'' \<in> fst ` set (class_items [ClassDef ''B'' [] [], ClassDef ''A'' [] [AnnAssign (Name ''y'') (Name ''int'')]])
   \<and> extract_tree ''m.py'' ([] @ ClassDef ''A'' [Name ''BaseModel''] [AnnAssign (Name ''x'') (Name ''B'')]
         # [ClassDef ''B'' [] [], ClassDef ''A'' [] [AnnAssign (Name ''y'') (Name ''int'')]])
     = extract_tree ''m.py'' ([] @ ClassDef ''A'' [] []
         # [ClassDef ''B'' [] [], ClassDef ''A'' [] [AnnAssign (Name ''y'') (Name ''int'')]])
   \<and> last_class_def [ClassDef ''A'' [Name ''BaseModel''] [AnnAssign (Name ''x'') (Name ''B'')],
         ClassDef ''B'' [] [], ClassDef ''A'' [] [AnnAssign (Name ''y'') (Name ''int'')]] ''A''
     = Some ([], [AnnAssign (Name ''y'') (Name ''int'')])
   \<and> map_of (classes (extract_tree ''m.py''
        [ClassDef ''A'' [Name ''BaseModel''] [AnnAssign (Name ''x'') (Name ''B'')],
         ClassDef ''B'' [] [], ClassDef ''A'' [] [AnnAssign (Name ''y'') (Name ''int'')]])) ''A''
     = Some [(''y'', ''int'', False)]
   \<and> ''A'' \<notin> base_models (extract_tree ''m.py''
        [ClassDef ''A'' [Name ''BaseModel''] [AnnAssign (Name ''x'') (Name ''B'')],
         ClassDef ''B'' [] [], ClassDef ''A'' [] [AnnAssign (Name ''y'') (Name ''int'')]])"
proof -
  let ?rest = "[ClassDef ''B'' [] [], ClassDef ''A'' [] [AnnAssign (Name ''y'') (Name ''int'')]]"
  let ?body = "ClassDef ''A'' [Name ''BaseModel''] [AnnAssign (Name ''x'') (Name ''B'')] # ?rest"
  have m: "''A'' \<in> fst ` set (class_items ?rest)"
    by (simp add: class_items_def)
  have l: "last_class_def ?body ''A'' = Some ([], [AnnAssign (Name ''y'') (Name ''int'')])"
    by (simp add: last_class_def_def class_items_def)
  have i: "inner_model_of d ''int'' = (if ''int'' \<in> fst ` set d then Some ''int'' else None)" for d
    by (simp add: inner_model_of_def)
  have k: "''int'' \<notin> fst ` set (class_definitions_of ?body)"
    by (simp add: keys_class_definitions class_items_def)
  note t = last_definition_in_file_wins [of "''A''" ?rest "''m.py''" "[]" "[Name ''BaseModel'']"
        "[AnnAssign (Name ''x'') (Name ''B'')]" "[]" "[]" ?body "[]"
        "[AnnAssign (Name ''y'') (Name ''int'')]"]
  have e: "extract_tree ''m.py'' ([] @ ClassDef ''A'' [Name ''BaseModel''] [AnnAssign (Name ''x'') (Name ''B'')] # ?rest)
     = extract_tree ''m.py'' ([] @ ClassDef ''A'' [] [] # ?rest)"
    by (rule t [THEN conjunct1, THEN mp, OF m])
  have c: "map_of (classes (extract_tree ''m.py'' ?body)) ''A'' = Some [(''y'', ''int'', False)]
     \<and> ''A'' \<notin> base_models (extract_tree ''m.py'' ?body)"
    using t [THEN conjunct2, THEN mp, OF l] by (simp add: i k check_inheritance_def)
  show ?thesis
    using m e l c by (intro conjI) blast+
qed

section \<open>Folder aggregation\<close>

lemma map_of_rev_distinct: "distinct (map fst xs) \<Longrightarrow> map_of (rev xs) = map_of xs"
proof -
  assume d: "distinct (map fst xs)"
  then have "distinct (map fst (rev xs))" by (simp add: rev_map [symmetric])
  then show ?thesis using d by (simp add: map_of_inject_set)
qed

lemma keys_classes: "map fst (classes (extract_tree fp body)) = map fst (class_definitions_of body)"
  by (simp add: extract_tree_eq Let_def case_prod_unfold comp_def)

lemma keys_file_to_class_map:
  "map fst (file_to_class_map (extract_tree fp body)) = map fst (class_definitions_of body)"
  by (simp add: extract_tree_eq Let_def case_prod_unfold comp_def)

lemma file_to_class_map_lookup:
  "map_of (file_to_class_map (extract_tree fp body)) cn =
     map_option (\<lambda>v. fp) (last_class_def body cn)"
proof -
  have "file_to_class_map (extract_tree fp body) =
          map (\<lambda>(k, v). (k, (\<lambda>v. fp) v)) (class_definitions_of body)"
    by (simp add: extract_tree_eq Let_def case_prod_unfold)
  then show ?thesis
    by (simp only: map_of_map class_definitions_lookup comp_def)
qed

lemma last_class_def_None: "(last_class_def body cn = None) = (cn \<notin> fst ` set (class_items body))"
  by (simp add: last_class_def_def map_of_eq_None_iff)

lemma dict_update_lookup:
  "distinct (map fst other) \<Longrightarrow>
   map_of (dict_update d other) k = (case map_of other k of None \<Rightarrow> map_of d k | Some v \<Rightarrow> Some v)"
  by (simp add: map_of_dict_update map_of_rev_distinct map_add_def)

lemma analyze_files_append:
  "analyze_files parse (xs @ ys) acc =
     (case analyze_files parse xs acc of Inl e \<Rightarrow> Inl e | Inr acc' \<Rightarrow> analyze_files parse ys acc')"
  by (induction xs arbitrary: acc)
     (simp_all add: extract_classes_with_nested_models_def split: sum.splits)

lemma analyze_files_keys:
  "analyze_files parse files acc = Inr agg \<Longrightarrow>
   map fst (all_classes acc) = map fst (class_to_file_map acc) \<Longrightarrow>
   distinct (map fst (all_classes acc)) \<Longrightarrow>
   map fst (all_classes agg) = map fst (class_to_file_map agg) \<and> distinct (map fst (all_classes agg))"
proof (induction files arbitrary: acc)
  case Nil
  then show ?case by simp
next
  case (Cons fp files)
  from Cons.prems(1) obtain body where p: "parse fp = Inr body"
    by (auto simp: extract_classes_with_nested_models_def split: sum.splits)
  let ?ex = "extract_tree fp body"
  let ?acc = "\<lparr> all_classes = dict_update (all_classes acc) (classes ?ex),
              all_base_models = all_base_models acc \<union> base_models ?ex,
              all_relationships = all_relationships acc @ nested_relationships ?ex,
              class_to_file_map = dict_update (class_to_file_map acc) (file_to_class_map ?ex) \<rparr>"
  have run: "analyze_files parse files ?acc = Inr agg"
    using Cons.prems(1) by (simp add: extract_classes_with_nested_models_def p)
  have k: "map fst (all_classes ?acc) = map fst (class_to_file_map ?acc)"
    using Cons.prems(2) by (simp add: keys_dict_update keys_classes keys_file_to_class_map)
  have d: "distinct (map fst (all_classes ?acc))"
    using Cons.prems(3) by (simp add: distinct_dict_update)
  show ?case by (rule Cons.IH [OF run k d])
qed

lemma analyze_files_untouched:
  "analyze_files parse files acc = Inr agg \<Longrightarrow>
   \<forall>g\<in>set files. \<forall>body. parse g = Inr body \<longrightarrow> last_class_def body cn = None \<Longrightarrow>
   map_of (all_classes agg) cn = map_of (all_classes acc) cn
   \<and> map_of (class_to_file_map agg) cn = map_of (class_to_file_map acc) cn"
proof (induction files arbitrary: acc)
  case Nil
  then show ?case by simp
next
  case (Cons fp files)
  from Cons.prems(1) obtain body where p: "parse fp = Inr body"
    by (auto simp: extract_classes_with_nested_models_def split: sum.splits)
  let ?ex = "extract_tree fp body"
  let ?acc = "\<lparr> all_classes = dict_update (all_classes acc) (classes ?ex),
              all_base_models = all_base_models acc \<union> base_models ?ex,
              all_relationships = all_relationships acc @ nested_relationships ?ex,
              class_to_file_map = dict_update (class_to_file_map acc) (file_to_class_map ?ex) \<rparr>"
  have run: "analyze_files parse files ?acc = Inr agg"
    using Cons.prems(1) by (simp add: extract_classes_with_nested_models_def p)
  have none: "last_class_def body cn = None" using Cons.prems(2) p by simp
  have rest: "\<forall>g\<in>set files. \<forall>body. parse g = Inr body \<longrightarrow> last_class_def body cn = None"
    using Cons.prems(2) by simp
  have d1: "distinct (map fst (classes ?ex))"
    by (simp add: keys_classes distinct_class_definitions)
  have d2: "distinct (map fst (file_to_class_map ?ex))"
    by (simp add: keys_file_to_class_map distinct_class_definitions)
  have "map_of (all_classes ?acc) cn = map_of (all_classes acc) cn"
    using none by (simp add: dict_update_lookup [OF d1] classes_lookup)
  moreover have "map_of (class_to_file_map ?acc) cn = map_of (class_to_file_map acc) cn"
    using none by (simp add: dict_update_lookup [OF d2] file_to_class_map_lookup)
  ultimately show ?case using Cons.IH [OF run rest] by simp
qed

lemma analyze_files_last_definition:
  assumes run: "analyze_files parse (before @ fp # after) acc = Inr agg"
    and p: "parse fp = Inr body"
    and def: "last_class_def body cn = Some (bases, cbody)"
    and later: "\<forall>g\<in>set after. \<forall>body'. parse g = Inr body' \<longrightarrow> last_class_def body' cn = None"
  shows "map_of (all_classes agg) cn = map_of (classes (extract_tree fp body)) cn
         \<and> map_of (class_to_file_map agg) cn = Some fp"
proof -
  from run obtain acc1 where a1: "analyze_files parse before acc = Inr acc1"
    and r1: "analyze_files parse (fp # after) acc1 = Inr agg"
    by (auto simp: analyze_files_append split: sum.splits)
  let ?ex = "extract_tree fp body"
  let ?acc = "\<lparr> all_classes = dict_update (all_classes acc1) (classes ?ex),
              all_base_models = all_base_models acc1 \<union> base_models ?ex,
              all_relationships = all_relationships acc1 @ nested_relationships ?ex,
              class_to_file_map = dict_update (class_to_file_map acc1) (file_to_class_map ?ex) \<rparr>"
  have r2: "analyze_files parse after ?acc = Inr agg"
    using r1 by (simp add: extract_classes_with_nested_models_def p)
  have d1: "distinct (map fst (classes ?ex))"
    by (simp add: keys_classes distinct_class_definitions)
  have d2: "distinct (map fst (file_to_class_map ?ex))"
    by (simp add: keys_file_to_class_map distinct_class_definitions)
  have c: "map_of (all_classes ?acc) cn = map_of (classes ?ex) cn"
    using def by (simp add: dict_update_lookup [OF d1] classes_lookup)
  have f: "map_of (class_to_file_map ?acc) cn = Some fp"
    using def by (simp add: dict_update_lookup [OF d2] file_to_class_map_lookup)
  show ?thesis
    using analyze_files_untouched [OF r2 later] c f by simp
qed

section \<open>The detector's file lookup\<close>

lemma record_attributes_total:
  "cn \<in> fst ` set cfm \<Longrightarrow> \<exists>idx'. record_attributes cfm cn attrs idx = Inr idx'"
proof (induction attrs arbitrary: idx)
  case Nil
  then show ?case by simp
next
  case (Cons field attrs)
  obtain a t b where field: "field = (a, t, b)" by (cases field)
  obtain T F where idx: "idx = (T, F)" by (cases idx)
  from Cons.prems obtain f where f: "map_of cfm cn = Some f"
    by (cases "map_of cfm cn") (simp_all add: map_of_eq_None_iff)
  show ?case using Cons.IH [OF Cons.prems] by (simp add: field idx f Let_def)
qed

lemma record_classes_total:
  "fst ` set cls \<subseteq> fst ` set cfm \<Longrightarrow> \<exists>idx'. record_classes cfm cls idx = Inr idx'"
proof (induction cls arbitrary: idx)
  case Nil
  then show ?case by simp
next
  case (Cons c cls)
  obtain cn attrs where c: "c = (cn, attrs)" by (cases c)
  have "cn \<in> fst ` set cfm" using Cons.prems by (simp add: c)
  then obtain idx1 where s: "record_attributes cfm cn attrs idx = Inr idx1"
    using record_attributes_total by blast
  have "fst ` set cls \<subseteq> fst ` set cfm" using Cons.prems by simp
  then show ?case using Cons.IH [of idx1] by (simp add: c s)
qed

lemma find_inconsistent_attributes_total:
  "fst ` set cls \<subseteq> fst ` set cfm \<Longrightarrow> \<exists>r. find_inconsistent_attributes cls cfm = Inr r"
proof -
  assume "fst ` set cls \<subseteq> fst ` set cfm"
  then obtain idx where "record_classes cfm cls ([], []) = Inr idx"
    using record_classes_total by blast
  then show ?thesis
    by (cases idx) (simp add: find_inconsistent_attributes_def)
qed

section \<open>Same-named classes in different files\<close>

text \<open>
  Claim C7. When the folder aggregation succeeds, the entry of a class name in the final
  class table is the one extracted from the last file in traversal order that defines
  the name, and the class-to-file map sends the name to that file; both tables hold one
  entry per name, so no definition from an earlier file remains.
\<close>

theorem later_file_definition_wins:
  assumes "analyze_models_folder parse walk = Inr agg"
    and "py_files walk = before @ fp # after"
    and "parse fp = Inr body"
    and "last_class_def body cn = Some (bases, cbody)"
    and "\<forall>g\<in>set after. \<forall>body'. parse g = Inr body' \<longrightarrow> last_class_def body' cn = None"
  shows "map_of (all_classes agg) cn = map_of (classes (extract_tree fp body)) cn
         \<and> map_of (class_to_file_map agg) cn = Some fp
         \<and> distinct (map fst (all_classes agg))
         \<and> distinct (map fst (class_to_file_map agg))"
proof -
  let ?init = "\<lparr> all_classes = [], all_base_models = {}, all_relationships = [],
                 class_to_file_map = [] \<rparr>"
  have run: "analyze_files parse (before @ fp # after) ?init = Inr agg"
    using assms(1,2) by (simp add: analyze_models_folder_def)
  have k: "map fst (all_classes agg) = map fst (class_to_file_map agg)
           \<and> distinct (map fst (all_classes agg))"
    by (rule analyze_files_keys [OF run]) simp_all
  have d: "distinct (map fst (class_to_file_map agg))"
    using k [THEN conjunct2] unfolding k [THEN conjunct1] .
  show ?thesis
    using analyze_files_last_definition [OF run assms(3,4,5)] k d by blast
qed

text \<open>
  Claim C7 at a folder with two files \<open>a.py\<close> and \<open>b.py\<close>, visited in this order, each
  defining a class \<open>User\<close> with a field \<open>id\<close>, of type \<open>int\<close> in the first file and
  \<open>str\<close> in the second.
\<close>

theorem later_file_definition_wins_witness:
  "\<exists>agg. analyze_models_folder
       (\<lambda>p. if p = ''m/a.py'' then Inr [ClassDef ''User'' [] [AnnAssign (Name ''id'') (Name ''int'')]]
            else Inr [ClassDef ''User'' [] [AnnAssign (Name ''id'') (Name ''str'')]])
       [(''m'', [], [''a.py'', ''b.py''])] = Inr agg
     \<and> py_files [(''m'', [], [''a.py'', ''b.py''])] = [''m/a.py''] @ ''m/b.py'' # []
     \<and> last_class_def [ClassDef ''User'' [] [AnnAssign (Name ''id'') (Name ''str'')]] ''User''
         = Some ([], [AnnAssign (Name ''id'') (Name ''str'')])
     \<and> map_of (all_classes agg) ''User'' = Some [(''id'', ''str'', False)]
     \<and> map_of (class_to_file_map agg) ''User'' = Some ''m/b.py''
     \<and> distinct (map fst (all_classes agg))"
proof -
  let ?parse = "\<lambda>p. if p = ''m/a.py''
       then Inr [ClassDef ''User'' [] [AnnAssign (Name ''id'') (Name ''int'')]]
       else (Inr [ClassDef ''User'' [] [AnnAssign (Name ''id'') (Name ''str'')]] :: error + stmt list)"
  let ?walk = "[(''m'', [] :: string list, [''a.py'', ''b.py''])]"
  let ?body = "[ClassDef ''User'' [] [AnnAssign (Name ''id'') (Name ''str'')]]"
  have files: "py_files ?walk = [''m/a.py''] @ ''m/b.py'' # []"
    by (simp add: py_files_def os_path_join_def endswith_def)
  have total: "\<exists>agg. analyze_models_folder ?parse ?walk = Inr agg"
    by (simp add: analyze_models_folder_def files [simplified]
        extract_classes_with_nested_models_def)
  then obtain agg where run: "analyze_models_folder ?parse ?walk = Inr agg" ..
  have p: "?parse ''m/b.py'' = Inr ?body" by simp
  have l: "last_class_def ?body ''User'' = Some ([], [AnnAssign (Name ''id'') (Name ''str'')])"
    by (simp add: last_class_def_def class_items_def)
  have after: "\<forall>g\<in>set []. \<forall>body'. ?parse g = Inr body' \<longrightarrow> last_class_def body' ''User'' = None"
    by simp
  have ex: "map_of (classes (extract_tree ''m/b.py'' ?body)) ''User'' = Some [(''id'', ''str'', False)]"
    by (simp add: classes_lookup l inner_model_of_def is_nested_type_def
        keys_class_definitions class_items_def)
  note t = later_file_definition_wins [OF run files p l after]
  show ?thesis
    using run files l t ex by (intro exI [of _ agg]) simp
qed

section \<open>Key sets of the two tables\<close>

text \<open>
  Claim C9. A single-file extraction that parses returns a class table and a
  class-to-file map with the same keys; so does a successful folder aggregation, and
  then every class of the aggregated table has a file in the map and the inconsistency
  detector returns a result instead of raising \<open>KeyError\<close>.
\<close>

theorem tables_share_keys:
  "(parse fp = Inr body \<longrightarrow>
      (\<exists>ex. extract_classes_with_nested_models parse fp = Inr ex
         \<and> fst ` set (classes ex) = fst ` set (file_to_class_map ex)))
   \<and> (analyze_models_folder parse walk = Inr agg \<longrightarrow>
        fst ` set (all_classes agg) = fst ` set (class_to_file_map agg)
        \<and> (\<forall>cn\<in>fst ` set (all_classes agg). \<exists>file. map_of (class_to_file_map agg) cn = Some file)
        \<and> (\<exists>r. find_inconsistent_attributes (all_classes agg) (class_to_file_map agg) = Inr r))"
proof (intro conjI impI)
  show "\<exists>ex. extract_classes_with_nested_models parse fp = Inr ex
         \<and> fst ` set (classes ex) = fst ` set (file_to_class_map ex)"
    if p: "parse fp = Inr body"
  proof -
    have "set (map fst (classes (extract_tree fp body))) =
          set (map fst (file_to_class_map (extract_tree fp body)))"
      by (simp only: keys_classes keys_file_to_class_map)
    then show ?thesis
      by (simp add: extract_classes_with_nested_models_def p)
  qed
next
  assume run: "analyze_models_folder parse walk = Inr agg"
  let ?init = "\<lparr> all_classes = [], all_base_models = {}, all_relationships = [],
                 class_to_file_map = [] \<rparr>"
  have "map fst (all_classes agg) = map fst (class_to_file_map agg)
        \<and> distinct (map fst (all_classes agg))"
    by (rule analyze_files_keys [OF run [unfolded analyze_models_folder_def]]) simp_all
  then have "set (map fst (all_classes agg)) = set (map fst (class_to_file_map agg))"
    by (simp only:)
  then show keys: "fst ` set (all_classes agg) = fst ` set (class_to_file_map agg)"
    by simp
  show "\<forall>cn\<in>fst ` set (all_classes agg). \<exists>file. map_of (class_to_file_map agg) cn = Some file"
  proof
    fix cn assume "cn \<in> fst ` set (all_classes agg)"
    then have "cn \<in> fst ` set (class_to_file_map agg)" by (simp only: keys)
    then have "map_of (class_to_file_map agg) cn \<noteq> None" by (simp add: map_of_eq_None_iff)
    then show "\<exists>file. map_of (class_to_file_map agg) cn = Some file" by blast
  qed
  show "\<exists>r. find_inconsistent_attributes (all_classes agg) (class_to_file_map agg) = Inr r"
    by (rule find_inconsistent_attributes_total) (simp only: keys subset_refl)
qed

text \<open>Claim C9 at a folder with one file that defines two classes.\<close>

theorem tables_share_keys_witness:
  "\<exists>agg. (\<lambda>p. Inr [ClassDef ''A'' [] [AnnAssign (Name ''x'') (Name ''int'')], ClassDef ''B'' [] []]
              :: error + stmt list) ''m/a.py''
       = Inr [ClassDef ''A'' [] [AnnAssign (Name ''x'') (Name ''int'')], ClassDef ''B'' [] []]
     \<and> analyze_models_folder
         (\<lambda>p. Inr [ClassDef ''A'' [] [AnnAssign (Name ''x'') (Name ''int'')], ClassDef ''B'' [] []])
         [(''m'', [], [''a.py''])] = Inr agg
     \<and> fst ` set (all_classes agg) = fst ` set (class_to_file_map agg)
     \<and> (\<exists>r. find_inconsistent_attributes (all_classes agg) (class_to_file_map agg) = Inr r)"
proof -
  let ?body = "[ClassDef ''A'' [] [AnnAssign (Name ''x'') (Name ''int'')], ClassDef ''B'' [] []]"
  let ?parse = "\<lambda>p :: string. (Inr ?body :: error + stmt list)"
  let ?walk = "[(''m'', [] :: string list, [''a.py''])]"
  have "\<exists>agg. analyze_models_folder ?parse ?walk = Inr agg"
    by (simp add: analyze_models_folder_def py_files_def os_path_join_def endswith_def
        extract_classes_with_nested_models_def)
  then obtain agg where run: "analyze_models_folder ?parse ?walk = Inr agg" ..
  have p: "?parse ''m/a.py'' = Inr ?body" by simp
  note t = tables_share_keys [of ?parse "''m/a.py''" ?body ?walk agg]
  show ?thesis
    using t run p by (intro exI [of _ agg]) blast
qed

section \<open>Files that fail to parse\<close>

lemma analyze_files_parsed:
  "\<forall>g\<in>set files. \<exists>body. parse g = Inr body \<Longrightarrow> \<exists>acc'. analyze_files parse files acc = Inr acc'"
proof (induction files arbitrary: acc)
  case Nil
  then show ?case by simp
next
  case (Cons g files)
  from Cons.prems obtain body where p: "parse g = Inr body" by auto
  have "\<forall>g\<in>set files. \<exists>body. parse g = Inr body" using Cons.prems by simp
  from Cons.IH [OF this] show ?case
    by (simp add: extract_classes_with_nested_models_def p)
qed

lemma analyze_files_first_failure:
  assumes "\<forall>g\<in>set before. \<exists>body. parse g = Inr body" and "parse fp = Inl e"
  shows "analyze_files parse (before @ fp # after) acc = Inl e"
proof -
  obtain acc' where "analyze_files parse before acc = Inr acc'"
    using analyze_files_parsed [OF assms(1)] by blast
  then show ?thesis
    by (simp add: analyze_files_append extract_classes_with_nested_models_def assms(2))
qed

lemma main_block_completes:
  assumes "\<forall>g\<in>set (py_files walk). \<exists>body. parse g = Inr body"
  shows "\<exists>summary diagram.
           main_block parse parse_again walk =
             Inr (summary, diagram,
                  map (generate_python_file_diagram parse_again ''visual'') (py_files walk))"
proof -
  let ?init = "\<lparr> all_classes = [], all_base_models = {}, all_relationships = [],
                 class_to_file_map = [] \<rparr>"
  obtain agg where run: "analyze_files parse (py_files walk) ?init = Inr agg"
    using analyze_files_parsed [OF assms] by blast
  have "map fst (all_classes agg) = map fst (class_to_file_map agg)
        \<and> distinct (map fst (all_classes agg))"
    by (rule analyze_files_keys [OF run]) simp_all
  then have "set (map fst (all_classes agg)) = set (map fst (class_to_file_map agg))"
    by (simp only:)
  then have keys: "fst ` set (all_classes agg) = fst ` set (class_to_file_map agg)"
    by simp
  have "\<exists>r. find_inconsistent_attributes (all_classes agg) (class_to_file_map agg) = Inr r"
    by (rule find_inconsistent_attributes_total) (simp only: keys subset_refl)
  then obtain incons summary
    where det: "find_inconsistent_attributes (all_classes agg) (class_to_file_map agg)
                 = Inr (incons, summary)"
    by (metis surj_pair)
  show ?thesis
    by (simp add: main_block_def analyze_models_folder_def run det)
qed

text \<open>
  Claim C6. If a file of the folder fails to parse, and the files visited before it
  parse, the aggregation ends with that file's error and so does the whole run: nothing
  catches it and no diagram is produced. A file that fails to parse when its own
  structure diagram is generated gives no graph and the printed line
  \<open>Error generating diagram for <path>: <message>\<close>; the function returns normally. When
  every file parses in the aggregation, the run ends normally whatever the second
  reading of the files gives, with one diagram result per file, each computed from that
  file alone: a file that fails at its second reading is skipped with its message and a
  file that parses gets its graph.
\<close>

theorem parse_failure_asymmetry:
  "(py_files walk = before @ fp # after \<and> (\<forall>g\<in>set before. \<exists>body. parse g = Inr body)
      \<and> parse fp = Inl e \<longrightarrow>
      analyze_models_folder parse walk = Inl e \<and> main_block parse parse_again walk = Inl e)
   \<and> (parse_again fp1 = Inl e1 \<longrightarrow>
        generate_python_file_diagram parse_again output_dir fp1 =
          (None, ''Error generating diagram for '' @ fp1 @ '': '' @ error_str e1))
   \<and> (parse_again fp2 = Inr body2 \<longrightarrow>
        fst (generate_python_file_diagram parse_again output_dir fp2) =
          Some (file_structure (splitext_root (os_path_basename fp2)) body2))
   \<and> (main_block parse parse_again walk = Inr (summary, diagram, file_diagrams) \<longrightarrow>
        file_diagrams = map (generate_python_file_diagram parse_again ''visual'') (py_files walk))
   \<and> ((\<forall>g\<in>set (py_files walk). \<exists>body. parse g = Inr body) \<longrightarrow>
        (\<exists>summary' diagram'.
           main_block parse parse_again walk =
             Inr (summary', diagram',
                  map (generate_python_file_diagram parse_again ''visual'') (py_files walk))))"
proof (intro conjI impI)
  assume h: "py_files walk = before @ fp # after \<and> (\<forall>g\<in>set before. \<exists>body. parse g = Inr body)
      \<and> parse fp = Inl e"
  then show a: "analyze_models_folder parse walk = Inl e"
    by (simp add: analyze_models_folder_def analyze_files_first_failure)
  then show "main_block parse parse_again walk = Inl e"
    by (simp add: main_block_def)
next
  show "generate_python_file_diagram parse_again output_dir fp1 =
          (None, ''Error generating diagram for '' @ fp1 @ '': '' @ error_str e1)"
    if "parse_again fp1 = Inl e1"
    using that by (simp add: generate_python_file_diagram_def Let_def)
  show "fst (generate_python_file_diagram parse_again output_dir fp2) =
          Some (file_structure (splitext_root (os_path_basename fp2)) body2)"
    if "parse_again fp2 = Inr body2"
    using that by (simp add: generate_python_file_diagram_def Let_def)
  show "file_diagrams = map (generate_python_file_diagram parse_again ''visual'') (py_files walk)"
    if "main_block parse parse_again walk = Inr (summary, diagram, file_diagrams)"
    using that by (auto simp: main_block_def split: sum.splits)
  show "\<exists>summary' diagram'.
           main_block parse parse_again walk =
             Inr (summary', diagram',
                  map (generate_python_file_diagram parse_again ''visual'') (py_files walk))"
    if "\<forall>g\<in>set (py_files walk). \<exists>body. parse g = Inr body"
    using that by (rule main_block_completes)
qed

text \<open>
  Claim C6 at a folder with the files \<open>a.py\<close>, which parses, and \<open>b.py\<close>, which does
  not: first with \<open>b.py\<close> failing in the aggregation, then with \<open>b.py\<close> parsing in the
  aggregation and failing when it is read again for its diagram.
\<close>

theorem parse_failure_asymmetry_witness:
  "py_files [(''m'', [], [''a.py'', ''b.py''])] = [''m/a.py''] @ ''m/b.py'' # []
   \<and> main_block
        (\<lambda>p. if p = ''m/b.py'' then Inl (SyntaxError ''invalid syntax'') else Inr [ClassDef ''A'' [] []])
        (\<lambda>p. if p = ''m/b.py'' then Inl (SyntaxError ''invalid syntax'') else Inr [ClassDef ''A'' [] []])
        [(''m'', [], [''a.py'', ''b.py''])] = Inl (SyntaxError ''invalid syntax'')
   \<and> (\<exists>summary diagram.
        main_block (\<lambda>p. Inr [ClassDef ''A'' [] []])
          (\<lambda>p. if p = ''m/b.py'' then Inl (SyntaxError ''invalid syntax'') else Inr [ClassDef ''A'' [] []])
          [(''m'', [], [''a.py'', ''b.py''])]
        = Inr (summary, diagram,
               [(Some (file_structure ''a'' [ClassDef ''A'' [] []]),
                 ''Python file structure diagram saved as visual/python_a.png''),
                (None, ''Error generating diagram for m/b.py: invalid syntax'')]))"
proof -
  let ?ok = "\<lambda>p :: string. (Inr [ClassDef ''A'' [] []] :: error + stmt list)"
  let ?bad = "\<lambda>p. if p = ''m/b.py'' then Inl (SyntaxError ''invalid syntax'')
                  else (Inr [ClassDef ''A'' [] []] :: error + stmt list)"
  let ?walk = "[(''m'', [] :: string list, [''a.py'', ''b.py''])]"
  have files: "py_files ?walk = [''m/a.py''] @ ''m/b.py'' # []"
    by (simp add: py_files_def os_path_join_def endswith_def)
  have before: "\<forall>g\<in>set [''m/a.py'']. \<exists>body. ?bad g = Inr body" by simp
  have bad: "?bad ''m/b.py'' = Inl (SyntaxError ''invalid syntax'')" by simp
  have good: "?bad ''m/a.py'' = Inr [ClassDef ''A'' [] []]" by simp
  have first: "\<forall>g\<in>set (py_files ?walk). \<exists>body. ?ok g = Inr body" by simp
  have abort: "main_block ?bad ?bad ?walk = Inl (SyntaxError ''invalid syntax'')"
    using parse_failure_asymmetry [of ?walk "[''m/a.py'']" "''m/b.py''" "[]" ?bad
        "SyntaxError ''invalid syntax''" ?bad] files before bad
    by blast
  note t = parse_failure_asymmetry [of ?walk "[]" "''m/a.py''" "[''m/b.py'']" ?ok
      "SyntaxError ''invalid syntax''" ?bad "''m/b.py''" "SyntaxError ''invalid syntax''"
      "''visual''" "''m/a.py''" "[ClassDef ''A'' [] []]"]
  obtain summary diagram
    where run: "main_block ?ok ?bad ?walk =
        Inr (summary, diagram, map (generate_python_file_diagram ?bad ''visual'') (py_files ?walk))"
    using t first by blast
  have skipped: "generate_python_file_diagram ?bad ''visual'' ''m/b.py'' =
      (None, ''Error generating diagram for m/b.py: invalid syntax'')"
    using t bad by simp
  have drawn: "fst (generate_python_file_diagram ?bad ''visual'' ''m/a.py'') =
      Some (file_structure ''a'' [ClassDef ''A'' [] []])"
    using t good by (simp add: os_path_basename_def splitext_root_def)
  have msg: "snd (generate_python_file_diagram ?bad ''visual'' ''m/a.py'') =
      ''Python file structure diagram saved as visual/python_a.png''"
    by (simp add: generate_python_file_diagram_def os_path_basename_def splitext_root_def
        os_path_join_def)
  have "map (generate_python_file_diagram ?bad ''visual'') (py_files ?walk) =
      [(Some (file_structure ''a'' [ClassDef ''A'' [] []]),
        ''Python file structure diagram saved as visual/python_a.png''),
       (None, ''Error generating diagram for m/b.py: invalid syntax'')]"
    unfolding files using skipped drawn msg
    by (simp add: prod_eq_iff)
  with run have run': "main_block ?ok ?bad ?walk =
      Inr (summary, diagram,
        [(Some (file_structure ''a'' [ClassDef ''A'' [] []]),
          ''Python file structure diagram saved as visual/python_a.png''),
         (None, ''Error generating diagram for m/b.py: invalid syntax'')])"
    by (simp only:)
  show ?thesis
  proof (intro conjI)
    show "py_files ?walk = [''m/a.py''] @ ''m/b.py'' # []" by (rule files)
    show "main_block ?bad ?bad ?walk = Inl (SyntaxError ''invalid syntax'')" by (rule abort)
    show "\<exists>summary diagram. main_block ?ok ?bad ?walk =
      Inr (summary, diagram,
        [(Some (file_structure ''a'' [ClassDef ''A'' [] []]),
          ''Python file structure diagram saved as visual/python_a.png''),
         (None, ''Error generating diagram for m/b.py: invalid syntax'')])"
      using run' by blast
  qed
qed

section \<open>The inconsistency summary\<close>

lemma types_at_dd_add:
  "types_at (dd_add T k x) n = (if n = k then insert x (types_at T k) else types_at T n)"
  by (simp add: types_at_def dd_add_def map_of_dict_set)

lemma distinct_dd_add: "distinct (map fst T) \<Longrightarrow> distinct (map fst (dd_add T k x))"
  by (simp add: dd_add_def distinct_dict_set)

lemma finite_dd_add:
  "\<forall>n. finite (types_at T n) \<Longrightarrow> finite (types_at (dd_add T k x) n)"
  by (simp add: types_at_dd_add)

lemma dd_list_dd_append:
  "dd_list (dd_append F k x) n = (if n = k then dd_list F k @ [x] else dd_list F n)"
  by (simp add: dd_list_def dd_append_def map_of_dict_set)

lemma recorded_types_Cons:
  "recorded_types normalize_type ((cn, attrs) # cls) n =
     recorded_types normalize_type [(cn, attrs)] n \<union> recorded_types normalize_type cls n"
  by (simp add: recorded_types_def)

lemma owning_files_Cons:
  "owning_files ((cn, attrs) # cls) cfm n =
     owning_files [(cn, attrs)] cfm n \<union> owning_files cls cfm n"
  by (simp add: owning_files_def)

lemma record_attributes_inv:
  "record_attributes cfm cn attrs (T, F) = Inr (T', F') \<Longrightarrow>
     types_at T' n = types_at T n \<union> recorded_types normalize_type [(cn, attrs)] n
     \<and> set (dd_list F' n) = set (dd_list F n) \<union> owning_files [(cn, attrs)] cfm n
     \<and> (distinct (map fst T) \<longrightarrow> distinct (map fst T'))"
proof (induction attrs arbitrary: T F)
  case Nil
  then show ?case by (simp add: recorded_types_def owning_files_def)
next
  case (Cons field attrs)
  obtain a t b where field: "field = (a, t, b)" by (cases field)
  from Cons.prems obtain f where f: "map_of cfm cn = Some f"
    by (cases "map_of cfm cn") (simp_all add: field Let_def)
  have run: "record_attributes cfm cn attrs (dd_add T a (normalize_type t), dd_append F a f)
             = Inr (T', F')"
    using Cons.prems by (simp add: field f Let_def)
  note ih = Cons.IH [OF run]
  have t1: "types_at T' n = types_at T n \<union> recorded_types normalize_type [(cn, field # attrs)] n"
    using ih by (auto simp: types_at_dd_add recorded_types_def field)
  have t2: "set (dd_list F' n) = set (dd_list F n) \<union> owning_files [(cn, field # attrs)] cfm n"
    using ih by (auto simp: dd_list_dd_append owning_files_def field f)
  have t3: "distinct (map fst T) \<longrightarrow> distinct (map fst T')"
    using ih by (simp add: distinct_dd_add)
  show ?case using t1 t2 t3 by simp
qed

lemma record_classes_inv:
  "record_classes cfm cls (T, F) = Inr (T', F') \<Longrightarrow>
     types_at T' n = types_at T n \<union> recorded_types normalize_type cls n
     \<and> set (dd_list F' n) = set (dd_list F n) \<union> owning_files cls cfm n
     \<and> (distinct (map fst T) \<longrightarrow> distinct (map fst T'))"
proof (induction cls arbitrary: T F)
  case Nil
  then show ?case by (simp add: recorded_types_def owning_files_def)
next
  case (Cons c cls)
  obtain cn attrs where c: "c = (cn, attrs)" by (cases c)
  from Cons.prems obtain T1 F1 where
    s1: "record_attributes cfm cn attrs (T, F) = Inr (T1, F1)"
    and s2: "record_classes cfm cls (T1, F1) = Inr (T', F')"
    by (auto simp: c split: sum.splits)
  note a = record_attributes_inv [OF s1, of n]
  note b = Cons.IH [OF s2]
  show ?case
    unfolding c recorded_types_Cons [of cn attrs cls] owning_files_Cons [of cn attrs cls]
    using a b by auto
qed

lemma map_of_filtered:
  "distinct (map fst T) \<Longrightarrow>
   map_of (map (\<lambda>(n, S). (n, h n S)) (filter (\<lambda>(n, S). P S) T)) k =
     (case map_of T k of None \<Rightarrow> None | Some S \<Rightarrow> if P S then Some (h k S) else None)"
proof (induction T)
  case Nil
  then show ?case by simp
next
  case (Cons kv T)
  obtain k' S' where kv: "kv = (k', S')" by (cases kv)
  have d: "distinct (map fst T)" and fresh: "k' \<notin> fst ` set T"
    using Cons.prems by (simp_all add: kv)
  have none: "map_of T k' = None" using fresh by (simp add: map_of_eq_None_iff)
  show ?case
  proof (cases "k = k'")
    case True
    then show ?thesis using Cons.IH [OF d] none by (simp add: kv)
  next
    case False
    then show ?thesis using Cons.IH [OF d] by (simp add: kv)
  qed
qed

lemma keys_filtered:
  "distinct (map fst T) \<Longrightarrow>
   (k \<in> fst ` set (filter (\<lambda>(n, S). P S) T)) = (\<exists>S. map_of T k = Some S \<and> P S)"
  by (auto simp: image_iff)

text \<open>
  What the detector computes. For a class table all of whose classes have a file in the
  class-to-file map, it returns a result in which an attribute name is a key of the
  summary, and a member of the inconsistent set, if and only if \<^verbatim>\<open>normalize_type\<close>
  gives more than one distinct value on the types recorded for it; the entry of such a
  name is that set of values together with the set of files of the classes that have
  the attribute.
\<close>

lemma summary_of_recorded_types:
  assumes "fst ` set cls \<subseteq> fst ` set cfm"
  shows "\<exists>incons summary. find_inconsistent_attributes cls cfm = Inr (incons, summary)
     \<and> distinct (map fst summary)
     \<and> (\<forall>name. (name \<in> fst ` set summary) = (1 < card (recorded_types normalize_type cls name))
            \<and> (name \<in> incons) = (1 < card (recorded_types normalize_type cls name))
            \<and> (1 < card (recorded_types normalize_type cls name) \<longrightarrow>
                 map_of summary name = Some (recorded_types normalize_type cls name, owning_files cls cfm name)))"
proof -
  obtain T F where run: "record_classes cfm cls ([], []) = Inr (T, F)"
    using record_classes_total [OF assms, of "([], [])"] by (metis surj_pair)
  let ?P = "\<lambda>S :: string set. 1 < card S"
  let ?kept = "filter (\<lambda>(n, S). ?P S) T"
  let ?summary = "map (\<lambda>(n, S). (n, (S, set (dd_list F n)))) ?kept"
  have res: "find_inconsistent_attributes cls cfm = Inr (fst ` set ?kept, ?summary)"
    by (simp add: find_inconsistent_attributes_def run)
  have types: "types_at T n = recorded_types normalize_type cls n" for n
    using record_classes_inv [OF run, of n] by (simp add: types_at_def)
  have files: "set (dd_list F n) = owning_files cls cfm n" for n
    using record_classes_inv [OF run, of n] by (simp add: dd_list_def)
  have d: "distinct (map fst T)"
    using record_classes_inv [OF run] by simp
  have keys: "map fst ?summary = map fst ?kept"
    by (simp add: case_prod_unfold comp_def)
  have member: "(n \<in> fst ` set ?kept) = (1 < card (recorded_types normalize_type cls n))" for n
  proof -
    have kf: "(n \<in> fst ` set ?kept) = (\<exists>S. map_of T n = Some S \<and> 1 < card S)"
      by (rule keys_filtered [OF d])
    show ?thesis
    proof (cases "map_of T n")
      case None
      then have "types_at T n = {}" by (simp add: types_at_def)
      then have "recorded_types normalize_type cls n = {}" using types [of n] by simp
      then show ?thesis unfolding kf using None by simp
    next
      case (Some S)
      then have "recorded_types normalize_type cls n = S" using types [of n] by (simp add: types_at_def)
      then show ?thesis unfolding kf using Some by simp
    qed
  qed
  have entry: "map_of ?summary n = Some (recorded_types normalize_type cls n, owning_files cls cfm n)"
    if "1 < card (recorded_types normalize_type cls n)" for n
  proof (cases "map_of T n")
    case None
    then have "types_at T n = {}" by (simp add: types_at_def)
    then show ?thesis using that types [of n] by simp
  next
    case (Some S)
    then have S: "S = recorded_types normalize_type cls n"
      using types [of n] by (simp add: types_at_def)
    show ?thesis
      using map_of_filtered [OF d, of "\<lambda>n S. (S, set (dd_list F n))" ?P n] Some that
      by (simp add: S files)
  qed
  have dist: "distinct (map fst ?summary)"
    unfolding keys using d by (simp add: distinct_map_filter)
  have "set (map fst ?summary) = set (map fst ?kept)"
    by (simp only: keys)
  then have skeys: "fst ` set ?summary = fst ` set ?kept"
    by (simp only: set_map)
  show ?thesis
  proof (intro exI [of _ "fst ` set ?kept"] exI [of _ ?summary] conjI allI impI)
    show "find_inconsistent_attributes cls cfm = Inr (fst ` set ?kept, ?summary)"
      by (rule res)
    show "distinct (map fst ?summary)"
      by (rule dist)
    show "(name \<in> fst ` set ?summary) = (1 < card (recorded_types normalize_type cls name))" for name
      unfolding skeys by (rule member)
    show "(name \<in> fst ` set ?kept) = (1 < card (recorded_types normalize_type cls name))" for name
      by (rule member)
    show "map_of ?summary name = Some (recorded_types normalize_type cls name, owning_files cls cfm name)"
      if "1 < card (recorded_types normalize_type cls name)" for name
      using that by (rule entry)
  qed
qed

text \<open>
  Claim C1 does not hold of the code. In a file with the classes \<open>A\<close> and \<open>B\<close>, whose
  fields \<open>x\<close> have the types \<open>List[Optional[Foo]]\<close> and \<open>List[Optional[Bar]]\<close>, two
  distinct normalised types, \<open>Optional[Foo]\<close> and \<open>Optional[Bar]\<close>, are recorded for
  \<open>x\<close>, yet the summary and the inconsistent set are empty: \<^verbatim>\<open>normalize_type\<close> turns
  both types into the wrapper name \<open>Optional\<close>.
\<close>

theorem nested_generics_not_flagged:
  "classes (extract_tree ''m.py''
      [ClassDef ''A'' [] [AnnAssign (Name ''x'')
         (Subscript (Name ''List'') (Subscript (Name ''Optional'') (Name ''Foo'')))],
       ClassDef ''B'' [] [AnnAssign (Name ''x'')
         (Subscript (Name ''List'') (Subscript (Name ''Optional'') (Name ''Bar'')))]])
     = [(''A'', [(''x'', ''List[Optional[Foo]]'', True)]),
        (''B'', [(''x'', ''List[Optional[Bar]]'', True)])]
   \<and> file_to_class_map (extract_tree ''m.py''
      [ClassDef ''A'' [] [AnnAssign (Name ''x'')
         (Subscript (Name ''List'') (Subscript (Name ''Optional'') (Name ''Foo'')))],
       ClassDef ''B'' [] [AnnAssign (Name ''x'')
         (Subscript (Name ''List'') (Subscript (Name ''Optional'') (Name ''Bar'')))]])
     = [(''A'', ''m.py''), (''B'', ''m.py'')]
   \<and> recorded_types normalize_type_spec
        [(''A'', [(''x'', ''List[Optional[Foo]]'', True)]),
         (''B'', [(''x'', ''List[Optional[Bar]]'', True)])] ''x''
     = {''Optional[Foo]'', ''Optional[Bar]''}
   \<and> card {''Optional[Foo]'', ''Optional[Bar]''} = 2
   \<and> find_inconsistent_attributes
        [(''A'', [(''x'', ''List[Optional[Foo]]'', True)]),
         (''B'', [(''x'', ''List[Optional[Bar]]'', True)])]
        [(''A'', ''m.py''), (''B'', ''m.py'')]
     = Inr ({}, [])"
proof (intro conjI)
  show "classes (extract_tree ''m.py''
      [ClassDef ''A'' [] [AnnAssign (Name ''x'')
         (Subscript (Name ''List'') (Subscript (Name ''Optional'') (Name ''Foo'')))],
       ClassDef ''B'' [] [AnnAssign (Name ''x'')
         (Subscript (Name ''List'') (Subscript (Name ''Optional'') (Name ''Bar'')))]])
     = [(''A'', [(''x'', ''List[Optional[Foo]]'', True)]),
        (''B'', [(''x'', ''List[Optional[Bar]]'', True)])]"
    by (simp add: extract_tree_def class_definitions_of_def extract_class_def
        inner_model_of_def rstrip_chr_def check_inheritance_def Let_def)
  show "file_to_class_map (extract_tree ''m.py''
      [ClassDef ''A'' [] [AnnAssign (Name ''x'')
         (Subscript (Name ''List'') (Subscript (Name ''Optional'') (Name ''Foo'')))],
       ClassDef ''B'' [] [AnnAssign (Name ''x'')
         (Subscript (Name ''List'') (Subscript (Name ''Optional'') (Name ''Bar'')))]])
     = [(''A'', ''m.py''), (''B'', ''m.py'')]"
    by (simp add: extract_tree_def class_definitions_of_def extract_class_def
        inner_model_of_def rstrip_chr_def check_inheritance_def Let_def)
  show "recorded_types normalize_type_spec
        [(''A'', [(''x'', ''List[Optional[Foo]]'', True)]),
         (''B'', [(''x'', ''List[Optional[Bar]]'', True)])] ''x''
     = {''Optional[Foo]'', ''Optional[Bar]''}"
    by (simp add: recorded_types_def normalize_type_spec_def between_brackets_def)
  show "card {''Optional[Foo]'', ''Optional[Bar]''} = 2"
    by simp
  have n: "normalize_type ''List[Optional[Foo]]'' = ''Optional''"
    "normalize_type ''List[Optional[Bar]]'' = ''Optional''"
    by (simp_all add: normalize_type_def rstrip_chr_def Let_def)
  show "find_inconsistent_attributes
        [(''A'', [(''x'', ''List[Optional[Foo]]'', True)]),
         (''B'', [(''x'', ''List[Optional[Bar]]'', True)])]
        [(''A'', ''m.py''), (''B'', ''m.py'')]
     = Inr ({}, [])"
    by (simp add: find_inconsistent_attributes_def n dd_add_def dd_append_def dd_list_def)
qed

end
